theory Spec2Isabelle
  imports Main
begin

section \<open>The fake http.FileSystem of fakefs.go\<close>

text \<open>
  The package builds a tree of \<^verbatim>\<open>http.File\<close> values. A directory is a pointer
  \<^verbatim>\<open>*dir\<close>, a regular file is a struct value \<^verbatim>\<open>file\<close> that embeds a pointer
  \<^verbatim>\<open>*bytes.Reader\<close>, and any other \<^verbatim>\<open>http.File\<close> may be put into a directory
  as well. Pointers are addresses into a store, so that "the same instance" is
  "the same address" and a cursor changed through one reference is seen through
  every other one. Go pointers made by \<^verbatim>\<open>&dir{...}\<close> and \<^verbatim>\<open>bytes.NewReader\<close>
  are never nil and never dangling, hence the stores are total.

  The model follows the later revision of fakefs.go (lines 200 to 422). Of the
  earlier revision in the same file (lines 1 to 200) it has \<^verbatim>\<open>dir.Readdir\<close>, the
  one function the listing differs in.
\<close>

subsection \<open>Data\<close>

type_synonym addr = nat

datatype error =
    ErrNotExist
  | EOF
  | NotDir
  | NotRegularFile
  | SeekInvalidWhence
  | SeekNegativePosition
  | ExtError string

text \<open>A function that can panic returns \<open>Panic\<close> with the message, else \<open>Returns\<close>.\<close>

datatype 'a outcome = Panic string | Returns 'a

text \<open>\<^verbatim>\<open>time.Time\<close> by its two numeric fields; the zero value has both zero.\<close>

datatype time = Time nat int

definition zero_time :: time where
  "zero_time = Time 0 0"

text \<open>
  \<^verbatim>\<open>bytes.Reader\<close> of the Go standard library: the byte string \<open>s\<close> and the
  current reading index \<open>i\<close> (an \<^verbatim>\<open>int64\<close> that is never negative: only
  \<^verbatim>\<open>Read\<close> and \<^verbatim>\<open>Seek\<close> assign it, the latter after a check).
\<close>

record reader =
  r_s :: string
  r_i :: nat

text \<open>\<^verbatim>\<open>type file struct { name string; size int64; modTime time.Time; *bytes.Reader }\<close>\<close>

record file_struct =
  f_name :: string
  f_size :: int
  f_modTime :: time
  f_Reader :: addr

text \<open>
  What the \<^verbatim>\<open>os.FileInfo\<close> of a file that is not of this package answers to
  \<^verbatim>\<open>Name()\<close> and \<^verbatim>\<open>IsDir()\<close>.
\<close>

record xinfo =
  x_name :: string
  x_isDir :: bool

text \<open>
  An \<^verbatim>\<open>http.File\<close> interface value: a \<^verbatim>\<open>file\<close> struct, a \<^verbatim>\<open>*dir\<close> pointer, or
  an object of some other type (a real file, a stub), known by its address.
\<close>

datatype node = FileV file_struct | DirP addr | Ext addr

text \<open>\<^verbatim>\<open>type dir struct { name string; files []http.File; position int }\<close>\<close>

record dir_struct =
  d_name :: string
  d_files :: "node list"
  d_position :: int

text \<open>
  An \<^verbatim>\<open>os.FileInfo\<close> interface value: \<^verbatim>\<open>file.Stat\<close> returns the file struct
  itself, \<^verbatim>\<open>dir.Stat\<close> the directory pointer itself.
\<close>

datatype finfo = FI_file file_struct | FI_dir addr | FI_ext xinfo

text \<open>
  The store. \<open>'x\<close> is the state of an object that is not of this package;
  \<open>next_dir\<close> and \<open>next_reader\<close> are the addresses the next allocation takes.
\<close>

record 'x world =
  dirs :: "addr \<Rightarrow> dir_struct"
  readers :: "addr \<Rightarrow> reader"
  exts :: "addr \<Rightarrow> 'x"
  next_dir :: addr
  next_reader :: addr

text \<open>
  The \<^verbatim>\<open>Stat\<close> method of the objects that are not of this package is a parameter
  of the model: it reads the object's state, answers with an error or a file
  info, and may change that state.
\<close>

type_synonym 'x xStat = "'x \<Rightarrow> (error + xinfo) \<times> 'x"

subsection \<open>Metadata\<close>

fun Stat :: "'x xStat \<Rightarrow> 'x world \<Rightarrow> node \<Rightarrow> (error + finfo) \<times> 'x world" where
  "Stat X w (FileV f) = (Inr (FI_file f), w)"
| "Stat X w (DirP a) = (Inr (FI_dir a), w)"
| "Stat X w (Ext x) =
     (case X (exts w x) of
        (Inl e, s') \<Rightarrow> (Inl e, w\<lparr>exts := (exts w)(x := s')\<rparr>)
      | (Inr xi, s') \<Rightarrow> (Inr (FI_ext xi), w\<lparr>exts := (exts w)(x := s')\<rparr>))"

fun Name :: "'x world \<Rightarrow> finfo \<Rightarrow> string" where
  "Name w (FI_file f) = f_name f"
| "Name w (FI_dir a) = d_name (dirs w a)"
| "Name w (FI_ext xi) = x_name xi"

fun IsDir :: "finfo \<Rightarrow> bool" where
  "IsDir (FI_file f) = False"
| "IsDir (FI_dir a) = True"
| "IsDir (FI_ext xi) = x_isDir xi"

subsection \<open>Path resolution: \<^verbatim>\<open>dir.Open\<close> and \<^verbatim>\<open>dir.find\<close>\<close>

text \<open>
  \<^verbatim>\<open>strings.SplitN(name, "/", 2)\<close>: the name itself when it has no separator,
  else what is before and what is after the first separator.
\<close>

fun cut_slash :: "string \<Rightarrow> (string \<times> string) option" where
  "cut_slash [] = None"
| "cut_slash (c # cs) =
     (if c = CHR ''/'' then Some ([], cs)
      else (case cut_slash cs of None \<Rightarrow> None | Some (h, r) \<Rightarrow> Some (c # h, r)))"

definition SplitN2 :: "string \<Rightarrow> string list" where
  "SplitN2 name = (case cut_slash name of None \<Rightarrow> [name] | Some (h, r) \<Rightarrow> [h, r])"

text \<open>The loop of \<^verbatim>\<open>dir.find\<close> over \<^verbatim>\<open>d.files\<close>.\<close>

fun find_loop :: "'x xStat \<Rightarrow> 'x world \<Rightarrow> node list \<Rightarrow> string \<Rightarrow> (error + node) \<times> 'x world" where
  "find_loop X w [] name = (Inl ErrNotExist, w)"
| "find_loop X w (f # fs) name =
     (case Stat X w f of
        (Inl e, w') \<Rightarrow> (Inl e, w')
      | (Inr st, w') \<Rightarrow> if Name w' st = name then (Inr f, w') else find_loop X w' fs name)"

definition find_dir :: "'x xStat \<Rightarrow> 'x world \<Rightarrow> addr \<Rightarrow> string \<Rightarrow> (error + node) \<times> 'x world" where
  "find_dir X w d name =
     (if name = '''' \<or> name = ''.'' then (Inr (DirP d), w)
      else find_loop X w (d_files (dirs w d)) name)"

lemma cut_slash_shorter: "cut_slash name = Some (h, r) \<Longrightarrow> length r < length name"
  by (induction name arbitrary: h) (auto split: if_splits option.splits)

lemma SplitN2_shorter:
  "length (SplitN2 name) \<noteq> Suc 0 \<Longrightarrow> length (SplitN2 name ! Suc 0) < length name"
  by (auto simp: SplitN2_def split: option.splits dest: cut_slash_shorter)

function Open :: "'x xStat \<Rightarrow> 'x world \<Rightarrow> addr \<Rightarrow> string \<Rightarrow> (error + node) \<times> 'x world" where
  "Open X w d name =
     (let parts = SplitN2 name in
      case find_dir X w d (parts ! 0) of
        (res, w') \<Rightarrow>
          if length parts = 1 then (res, w')
          else (case res of
                  Inr (DirP subDir) \<Rightarrow> Open X w' subDir (parts ! 1)
                | _ \<Rightarrow> (Inl ErrNotExist, w')))"
  by pat_completeness auto

termination
  by (relation "measure (\<lambda>(X, w, d, name). length name)") (auto simp: SplitN2_shorter)

subsection \<open>Directory listing: \<^verbatim>\<open>dir.Readdir\<close> and \<^verbatim>\<open>dir.Close\<close>\<close>

text \<open>
  In both loops of \<^verbatim>\<open>Readdir\<close> the list \<open>r\<close> of the model is the filled part
  \<^verbatim>\<open>r[0:i]\<close> of the slice of the source, so that the loop index \<open>i\<close> is
  \<open>length r\<close>. \<open>slice_to r hi\<close> is the slice expression \<^verbatim>\<open>r[0:hi]\<close>, which
  panics for a negative bound.
\<close>

definition slice_to :: "'a list \<Rightarrow> int \<Rightarrow> 'a list outcome" where
  "slice_to r hi =
     (if hi < 0 then Panic ''slice bounds out of range'' else Returns (take (nat hi) r))"

text \<open>The loop of the branch \<^verbatim>\<open>count == 0\<close> (lines 365 to 370).\<close>

fun Readdir_all ::
  "'x xStat \<Rightarrow> 'x world \<Rightarrow> node list \<Rightarrow> finfo list \<Rightarrow> ((finfo list \<times> error option) \<times> 'x world) outcome"
where
  "Readdir_all X w [] r = Returns ((r, None), w)"
| "Readdir_all X w (f # fs) r =
     (case Stat X w f of
        (Inl e, w') \<Rightarrow>
          (case slice_to r (int (length r)) of
             Panic m \<Rightarrow> Panic m
           | Returns r' \<Rightarrow> Returns ((r', Some e), w'))
      | (Inr st, w') \<Rightarrow> Readdir_all X w' fs (r @ [st]))"

text \<open>
  The loop of the branch \<^verbatim>\<open>count != 0\<close> (lines 373 to 382); \<open>n\<close> is the number
  of rounds left, \<^verbatim>\<open>count - i\<close>. The index expression \<^verbatim>\<open>d.files[d.position]\<close>
  panics for a negative position.
\<close>

fun Readdir_loop ::
  "'x xStat \<Rightarrow> 'x world \<Rightarrow> addr \<Rightarrow> finfo list \<Rightarrow> nat \<Rightarrow> ((finfo list \<times> error option) \<times> 'x world) outcome"
where
  "Readdir_loop X w d r 0 = Returns ((r, None), w)"
| "Readdir_loop X w d r (Suc n) =
     (if d_position (dirs w d) > int (length (d_files (dirs w d))) - 1 then
        (case slice_to r (int (length r)) of
           Panic m \<Rightarrow> Panic m
         | Returns r' \<Rightarrow> Returns ((r', Some EOF), w))
      else if d_position (dirs w d) < 0 then Panic ''index out of range''
      else
        (case Stat X w (d_files (dirs w d) ! nat (d_position (dirs w d))) of
           (Inl e, w') \<Rightarrow>
             (case slice_to r (int (length r)) of
                Panic m \<Rightarrow> Panic m
              | Returns r' \<Rightarrow> Returns ((r', Some e), w'))
         | (Inr st, w') \<Rightarrow>
             Readdir_loop X
               (w'\<lparr>dirs := (dirs w')(d := (dirs w' d)\<lparr>d_position := d_position (dirs w' d) + 1\<rparr>)\<rparr>)
               d (r @ [st]) n))"

text \<open>
  \<^verbatim>\<open>make([]os.FileInfo, count)\<close> is \<^verbatim>\<open>runtime.makeslice\<close>: it panics when the
  length is negative and when the bytes asked for, 16 for each interface value,
  are more than \<^verbatim>\<open>maxAlloc\<close>, which is \<open>2 ^ 48\<close> on the 64-bit platforms. A
  length it accepts and the machine has no memory for ends the program; that
  is outside the model.
\<close>

definition maxAlloc :: int where
  "maxAlloc = 2 ^ 48"

text \<open>\<^verbatim>\<open>dir.Readdir\<close> (lines 362 to 385).\<close>

definition Readdir ::
  "'x xStat \<Rightarrow> 'x world \<Rightarrow> addr \<Rightarrow> int \<Rightarrow> ((finfo list \<times> error option) \<times> 'x world) outcome"
where
  "Readdir X w d count =
     (if count = 0 then Readdir_all X w (d_files (dirs w d)) []
      else if count < 0 \<or> 16 * count > maxAlloc then Panic ''makeslice: len out of range''
      else Readdir_loop X w d [] (nat count))"

text \<open>
  The earlier revision of \<^verbatim>\<open>dir.Readdir\<close> (lines 140 to 163; \<^verbatim>\<open>mockDir.Readdir\<close>
  of mockfs.go has the same loop): its \<^verbatim>\<open>count == 0\<close> loop returns
  \<^verbatim>\<open>r[0 : i-1]\<close> on an error; the other branch is the same.
\<close>

fun Readdir_all_earlier ::
  "'x xStat \<Rightarrow> 'x world \<Rightarrow> node list \<Rightarrow> finfo list \<Rightarrow> ((finfo list \<times> error option) \<times> 'x world) outcome"
where
  "Readdir_all_earlier X w [] r = Returns ((r, None), w)"
| "Readdir_all_earlier X w (f # fs) r =
     (case Stat X w f of
        (Inl e, w') \<Rightarrow>
          (case slice_to r (int (length r) - 1) of
             Panic m \<Rightarrow> Panic m
           | Returns r' \<Rightarrow> Returns ((r', Some e), w'))
      | (Inr st, w') \<Rightarrow> Readdir_all_earlier X w' fs (r @ [st]))"

definition Readdir_earlier ::
  "'x xStat \<Rightarrow> 'x world \<Rightarrow> addr \<Rightarrow> int \<Rightarrow> ((finfo list \<times> error option) \<times> 'x world) outcome"
where
  "Readdir_earlier X w d count =
     (if count = 0 then Readdir_all_earlier X w (d_files (dirs w d)) []
      else if count < 0 \<or> 16 * count > maxAlloc then Panic ''makeslice: len out of range''
      else Readdir_loop X w d [] (nat count))"

text \<open>\<^verbatim>\<open>dir.Read\<close> and \<^verbatim>\<open>dir.Seek\<close> refuse.\<close>

definition dir_Read :: "'x world \<Rightarrow> addr \<Rightarrow> nat \<Rightarrow> (string \<times> error option) \<times> 'x world" where
  "dir_Read w d n = (([], Some NotRegularFile), w)"

definition dir_Seek :: "'x world \<Rightarrow> addr \<Rightarrow> int \<Rightarrow> int \<Rightarrow> (int \<times> error option) \<times> 'x world" where
  "dir_Seek w d offset whence = ((0, Some NotRegularFile), w)"

text \<open>\<^verbatim>\<open>dir.Close\<close> sets the position to 0 and returns no error.\<close>

definition dir_Close :: "'x world \<Rightarrow> addr \<Rightarrow> 'x world" where
  "dir_Close w d = w\<lparr>dirs := (dirs w)(d := (dirs w d)\<lparr>d_position := 0\<rparr>)\<rparr>"

definition dir_Size :: "'x world \<Rightarrow> addr \<Rightarrow> int" where
  "dir_Size w d = 0"

definition dir_ModTime :: "'x world \<Rightarrow> addr \<Rightarrow> time outcome" where
  "dir_ModTime w d = Panic ''unimplemented''"

subsection \<open>Regular files\<close>

text \<open>
  The methods of \<^verbatim>\<open>bytes.Reader\<close> that \<^verbatim>\<open>file\<close> passes on, after the standard
  library: \<^verbatim>\<open>Len\<close> is the number of unread bytes; \<^verbatim>\<open>Read\<close> with a buffer of \<open>n\<close>
  bytes answers \<^verbatim>\<open>io.EOF\<close> at or past the end and else copies
  \<^verbatim>\<open>s[i:]\<close> as far as the buffer goes (the model returns the bytes copied);
  \<^verbatim>\<open>Seek\<close> refuses an unknown \<open>whence\<close> and a negative position; its
  \<^verbatim>\<open>int64\<close> sums wrap around.
\<close>

definition wrap64 :: "int \<Rightarrow> int" where
  "wrap64 x = (x + 2 ^ 63) mod 2 ^ 64 - 2 ^ 63"

definition Reader_Len :: "reader \<Rightarrow> int" where
  "Reader_Len r =
     (if int (r_i r) \<ge> int (length (r_s r)) then 0 else int (length (r_s r)) - int (r_i r))"

definition Reader_Read :: "reader \<Rightarrow> nat \<Rightarrow> (string \<times> error option) \<times> reader" where
  "Reader_Read r n =
     (if int (r_i r) \<ge> int (length (r_s r)) then (([], Some EOF), r)
      else (let b = take n (drop (r_i r) (r_s r))
            in ((b, None), r\<lparr>r_i := r_i r + length b\<rparr>)))"

definition Reader_Seek :: "reader \<Rightarrow> int \<Rightarrow> int \<Rightarrow> (int \<times> error option) \<times> reader" where
  "Reader_Seek r offset whence =
     (if whence \<noteq> 0 \<and> whence \<noteq> 1 \<and> whence \<noteq> 2 then ((0, Some SeekInvalidWhence), r)
      else (let abs = (if whence = 0 then offset
                       else if whence = 1 then wrap64 (int (r_i r) + offset)
                       else wrap64 (int (length (r_s r)) + offset))
            in if abs < 0 then ((0, Some SeekNegativePosition), r)
               else ((abs, None), r\<lparr>r_i := nat abs\<rparr>)))"

definition file_Read :: "'x world \<Rightarrow> file_struct \<Rightarrow> nat \<Rightarrow> (string \<times> error option) \<times> 'x world" where
  "file_Read w f n =
     (case Reader_Read (readers w (f_Reader f)) n of
        (res, r') \<Rightarrow> (res, w\<lparr>readers := (readers w)(f_Reader f := r')\<rparr>))"

definition file_Seek :: "'x world \<Rightarrow> file_struct \<Rightarrow> int \<Rightarrow> int \<Rightarrow> (int \<times> error option) \<times> 'x world" where
  "file_Seek w f offset whence =
     (case Reader_Seek (readers w (f_Reader f)) offset whence of
        (res, r') \<Rightarrow> (res, w\<lparr>readers := (readers w)(f_Reader f := r')\<rparr>))"

text \<open>\<^verbatim>\<open>file.Readdir\<close> refuses.\<close>

definition file_Readdir :: "'x world \<Rightarrow> file_struct \<Rightarrow> int \<Rightarrow> (finfo list \<times> error option) \<times> 'x world" where
  "file_Readdir w f count = (([], Some NotDir), w)"

text \<open>\<^verbatim>\<open>file.Close\<close> seeks to the start, panics on an error and returns no error.\<close>

definition file_Close :: "'x world \<Rightarrow> file_struct \<Rightarrow> 'x world outcome" where
  "file_Close w f =
     (case file_Seek w f 0 0 of
        ((n, Some err), w') \<Rightarrow> Panic ''seek''
      | ((n, None), w') \<Rightarrow> Returns w')"

definition file_Size :: "'x world \<Rightarrow> file_struct \<Rightarrow> int" where
  "file_Size w f = Reader_Len (readers w (f_Reader f))"

definition file_ModTime :: "file_struct \<Rightarrow> time" where
  "file_ModTime f = f_modTime f"

subsection \<open>Constructors\<close>

text \<open>
  An argument of the variadic \<^verbatim>\<open>options ...interface{}\<close>: a \<^verbatim>\<open>time.Time\<close>, or a
  value of another type (with the name of that type).
\<close>

datatype opt_arg = OptTime time | OptOther string

definition NewReader :: "'x world \<Rightarrow> string \<Rightarrow> addr \<times> 'x world" where
  "NewReader w b =
     (next_reader w,
      w\<lparr>readers := (readers w)(next_reader w := \<lparr>r_s = b, r_i = 0\<rparr>),
        next_reader := Suc (next_reader w)\<rparr>)"

text \<open>The loop of \<^verbatim>\<open>File\<close> over its options.\<close>

fun File_options :: "file_struct \<Rightarrow> opt_arg list \<Rightarrow> file_struct outcome" where
  "File_options f [] = Returns f"
| "File_options f (OptTime t # os) = File_options (f\<lparr>f_modTime := t\<rparr>) os"
| "File_options f (OptOther T # os) = Panic (''Unknown option type '' @ T)"

definition File :: "'x world \<Rightarrow> string \<Rightarrow> string \<Rightarrow> opt_arg list \<Rightarrow> (node \<times> 'x world) outcome" where
  "File w name contents options =
     (case NewReader w contents of
        (rd, w') \<Rightarrow>
          (case File_options
                  \<lparr>f_name = name, f_size = int (length contents), f_modTime = zero_time,
                   f_Reader = rd\<rparr> options of
             Panic m \<Rightarrow> Panic m
           | Returns f \<Rightarrow> Returns (FileV f, w')))"

text \<open>\<^verbatim>\<open>&dir{name, files, 0}\<close>\<close>

definition new_dir :: "'x world \<Rightarrow> string \<Rightarrow> node list \<Rightarrow> addr \<times> 'x world" where
  "new_dir w name files =
     (next_dir w,
      w\<lparr>dirs := (dirs w)(next_dir w := \<lparr>d_name = name, d_files = files, d_position = 0\<rparr>),
        next_dir := Suc (next_dir w)\<rparr>)"

definition Dir :: "'x world \<Rightarrow> string \<Rightarrow> node list \<Rightarrow> node \<times> 'x world" where
  "Dir w name files = (case new_dir w name files of (d, w') \<Rightarrow> (DirP d, w'))"

definition FileSystem :: "'x world \<Rightarrow> node list \<Rightarrow> addr \<times> 'x world" where
  "FileSystem w files = new_dir w '''' files"

subsection \<open>Reading a file to its end\<close>

text \<open>
  \<^verbatim>\<open>bytes.Buffer.ReadFrom\<close>, with which the tests read a file: it calls \<^verbatim>\<open>Read\<close>
  with at least \<^verbatim>\<open>MinRead\<close> bytes of room until \<^verbatim>\<open>io.EOF\<close>, which it does not
  report, or until another error, which it reports. \<open>buf\<close> is what was read so
  far. The model hands \<^verbatim>\<open>Read\<close> a room of \<^verbatim>\<open>MinRead\<close> bytes each time.
\<close>

definition MinRead :: nat where
  "MinRead = 512"

lemma file_Read_progress:
  assumes "file_Read w f MinRead = ((b, None), w')"
  shows "length (r_s (readers w' (f_Reader f))) - r_i (readers w' (f_Reader f))
       < length (r_s (readers w (f_Reader f))) - r_i (readers w (f_Reader f))"
  using assms
  by (auto simp: file_Read_def Reader_Read_def MinRead_def Let_def split: if_splits)

function ReadFrom :: "'x world \<Rightarrow> file_struct \<Rightarrow> string \<Rightarrow> (string \<times> error option) \<times> 'x world" where
  "ReadFrom w f buf =
     (case file_Read w f MinRead of
        ((b, Some e), w') \<Rightarrow>
          if e = EOF then ((buf @ b, None), w') else ((buf @ b, Some e), w')
      | ((b, None), w') \<Rightarrow> ReadFrom w' f (buf @ b))"
  by pat_completeness auto

termination
  by (relation "measure (\<lambda>(w, f, buf).
        length (r_s (readers w (f_Reader f))) - r_i (readers w (f_Reader f)))")
     (auto dest: file_Read_progress [OF sym])

section \<open>Notions for the statements\<close>

text \<open>
  \<open>pkg_tree w A\<close>: the directories at the addresses \<open>A\<close> hold regular files and
  directories of this package only, and those directories are in \<open>A\<close> again.
\<close>

definition pkg_tree :: "'x world \<Rightarrow> addr set \<Rightarrow> bool" where
  "pkg_tree w A =
     (\<forall>a\<in>A. \<forall>n\<in>set (d_files (dirs w a)).
        case n of FileV f \<Rightarrow> True | DirP b \<Rightarrow> b \<in> A | Ext x \<Rightarrow> False)"

text \<open>
  What the nodes of a list answer to \<^verbatim>\<open>Stat\<close> when they are asked one after the
  other, each once, up to the first that fails: the infos of those before it,
  the error of that one if there is one, and the store afterwards.
\<close>

fun stat_children ::
  "'x xStat \<Rightarrow> 'x world \<Rightarrow> node list \<Rightarrow> (finfo list \<times> error option) \<times> 'x world"
where
  "stat_children X w [] = (([], None), w)"
| "stat_children X w (n # ns) =
     (case Stat X w n of
        (Inl e, w') \<Rightarrow> (([], Some e), w')
      | (Inr fi, w') \<Rightarrow>
          (case stat_children X w' ns of ((fis, err), w'') \<Rightarrow> ((fi # fis, err), w'')))"

text \<open>
  \<open>always_answers X S\<close>: a foreign object in a state of \<open>S\<close> answers \<^verbatim>\<open>Stat\<close>
  with an info and is in a state of \<open>S\<close> again. \<open>foreign_in w fs S\<close>: the
  foreign objects among the nodes \<open>fs\<close> are in states of \<open>S\<close>.
\<close>

definition always_answers :: "'x xStat \<Rightarrow> 'x set \<Rightarrow> bool" where
  "always_answers X S = (\<forall>s\<in>S. case X s of (Inl e, s') \<Rightarrow> False | (Inr xi, s') \<Rightarrow> s' \<in> S)"

definition foreign_in :: "'x world \<Rightarrow> node list \<Rightarrow> 'x set \<Rightarrow> bool" where
  "foreign_in w fs S =
     (\<forall>n\<in>set fs. case n of FileV f \<Rightarrow> True | DirP a \<Rightarrow> True | Ext x \<Rightarrow> exts w x \<in> S)"

text \<open>The store \<open>w\<close> with the position of the directory \<open>d\<close> set to \<open>p\<close>.\<close>

definition at_position :: "'x world \<Rightarrow> addr \<Rightarrow> int \<Rightarrow> 'x world" where
  "at_position w d p = w\<lparr>dirs := (dirs w)(d := (dirs w d)\<lparr>d_position := p\<rparr>)\<rparr>"

text \<open>The store after \<open>j\<close> calls of \<^verbatim>\<open>d.Readdir(count)\<close> in a row.\<close>

fun Readdir_times :: "'x xStat \<Rightarrow> 'x world \<Rightarrow> addr \<Rightarrow> int \<Rightarrow> nat \<Rightarrow> 'x world outcome" where
  "Readdir_times X w d count 0 = Returns w"
| "Readdir_times X w d count (Suc j) =
     (case Readdir X w d count of
        Panic m \<Rightarrow> Panic m
      | Returns (res, w') \<Rightarrow> Readdir_times X w' d count j)"

text \<open>The number of pages of \<open>K\<close> entries that \<open>N\<close> entries need, rounded up.\<close>

definition ceil_div :: "nat \<Rightarrow> nat \<Rightarrow> nat" where
  "ceil_div N K = (N + K - 1) div K"

text \<open>
  A path segment that names a child: it is not empty, not \<^verbatim>\<open>"."\<close>, and has no
  separator. \<open>join_path\<close> puts a separator between the segments.
\<close>

definition seg_ok :: "string \<Rightarrow> bool" where
  "seg_ok s = (s \<noteq> '''' \<and> s \<noteq> ''.'' \<and> CHR ''/'' \<notin> set s)"

fun join_path :: "string list \<Rightarrow> string" where
  "join_path [] = ''''"
| "join_path [s] = s"
| "join_path (s # t # ss) = s @ ''/'' @ join_path (t # ss)"

text \<open>
  \<open>others_before X w pre seg\<close>: the nodes \<open>pre\<close>, asked one after the other, all
  answer \<^verbatim>\<open>Stat\<close>, and none with the name \<open>seg\<close>.
\<close>

definition others_before :: "'x xStat \<Rightarrow> 'x world \<Rightarrow> node list \<Rightarrow> string \<Rightarrow> bool" where
  "others_before X w pre seg =
     (case stat_children X w pre of
        ((fis, None), w') \<Rightarrow> seg \<notin> set (map (Name w) fis)
      | ((fis, Some e), w') \<Rightarrow> False)"

text \<open>
  \<open>placed X w d path f\<close>: the regular file \<open>f\<close> sits in the tree under the
  directory \<open>d\<close> at \<open>path\<close>, a list of segments, each with the index of the
  child it names. The child at that index has the segment as its name, the
  children before it answer \<^verbatim>\<open>Stat\<close> with other names, every segment but the last
  names a directory of this package, and the last names \<open>f\<close>. What the foreign
  children before a directory on the path did when they were asked is in the
  store the next level is looked at in.
\<close>

fun placed :: "'x xStat \<Rightarrow> 'x world \<Rightarrow> addr \<Rightarrow> (string \<times> nat) list \<Rightarrow> file_struct \<Rightarrow> bool" where
  "placed X w d [] f = False"
| "placed X w d [(seg, i)] f =
     (seg_ok seg \<and> i < length (d_files (dirs w d))
      \<and> d_files (dirs w d) ! i = FileV f \<and> f_name f = seg
      \<and> others_before X w (take i (d_files (dirs w d))) seg)"
| "placed X w d ((seg, i) # step # path) f =
     (seg_ok seg \<and> i < length (d_files (dirs w d))
      \<and> others_before X w (take i (d_files (dirs w d))) seg
      \<and> (case d_files (dirs w d) ! i of
            DirP sub \<Rightarrow>
              d_name (dirs w sub) = seg
              \<and> placed X (snd (stat_children X w (take i (d_files (dirs w d))))) sub
                    (step # path) f
          | FileV g \<Rightarrow> False
          | Ext x \<Rightarrow> False))"

section \<open>The trees of the tests\<close>

subsection \<open>The file system of the tests\<close>

text \<open>A store with nothing allocated; \<open>s\<close> is the state of every foreign object.\<close>

definition new_world :: "'x \<Rightarrow> 'x world" where
  "new_world s =
     \<lparr>dirs = (\<lambda>a. \<lparr>d_name = '''', d_files = [], d_position = 0\<rparr>),
      readers = (\<lambda>a. \<lparr>r_s = '''', r_i = 0\<rparr>),
      exts = (\<lambda>a. s), next_dir = 0, next_reader = 0\<rparr>"

definition now :: time where
  "now = Time 1414857600 0"

text \<open>
  \<^verbatim>\<open>testFS\<close> of the test file, with the arguments built before the call that
  takes them, as Go does.
\<close>

definition testFS :: "(addr \<times> unit world) outcome" where
  "testFS =
     (case File (new_world ()) ''bar'' ''BAR'' [OptTime now] of
        Panic m \<Rightarrow> Panic m
      | Returns (bar, w1) \<Rightarrow>
     (case File w1 ''baz'' ''BAZ'' [] of
        Panic m \<Rightarrow> Panic m
      | Returns (baz, w2) \<Rightarrow>
     (case Dir w2 ''baz'' [baz] of (baz3, w3) \<Rightarrow>
     (case Dir w3 ''baz'' [baz3] of (baz2, w4) \<Rightarrow>
     (case Dir w4 ''baz'' [baz2] of (baz1, w5) \<Rightarrow>
     (case Dir w5 ''foo'' [bar, baz1] of (foo, w6) \<Rightarrow>
     (case File w6 ''hello'' ''hello'' [] of
        Panic m \<Rightarrow> Panic m
      | Returns (hello, w7) \<Rightarrow> Returns (FileSystem w7 [foo, hello]))))))))"

definition bar_file :: file_struct where
  "bar_file = \<lparr>f_name = ''bar'', f_size = 3, f_modTime = now, f_Reader = 0\<rparr>"

definition baz_file :: file_struct where
  "baz_file = \<lparr>f_name = ''baz'', f_size = 3, f_modTime = zero_time, f_Reader = 1\<rparr>"

definition hello_file :: file_struct where
  "hello_file = \<lparr>f_name = ''hello'', f_size = 5, f_modTime = zero_time, f_Reader = 2\<rparr>"

text \<open>The store that \<open>testFS\<close> builds; its root is the directory at address 4.\<close>

definition test_world :: "unit world" where
  "test_world =
     \<lparr>dirs = (\<lambda>a. \<lparr>d_name = '''', d_files = [], d_position = 0\<rparr>)
        (0 := \<lparr>d_name = ''baz'', d_files = [FileV baz_file], d_position = 0\<rparr>,
         1 := \<lparr>d_name = ''baz'', d_files = [DirP 0], d_position = 0\<rparr>,
         2 := \<lparr>d_name = ''baz'', d_files = [DirP 1], d_position = 0\<rparr>,
         3 := \<lparr>d_name = ''foo'', d_files = [FileV bar_file, DirP 2], d_position = 0\<rparr>,
         4 := \<lparr>d_name = '''', d_files = [DirP 3, FileV hello_file], d_position = 0\<rparr>),
      readers = (\<lambda>a. \<lparr>r_s = '''', r_i = 0\<rparr>)
        (0 := \<lparr>r_s = ''BAR'', r_i = 0\<rparr>,
         1 := \<lparr>r_s = ''BAZ'', r_i = 0\<rparr>,
         2 := \<lparr>r_s = ''hello'', r_i = 0\<rparr>),
      exts = (\<lambda>a. ()), next_dir = 5, next_reader = 3\<rparr>"

text \<open>
  The stores in which \<^verbatim>\<open>testFS\<close> makes the file \<^verbatim>\<open>baz\<close>: before the call of
  \<^verbatim>\<open>File\<close> and after it. \<open>baz_read\<close> is the store of the tests after \<^verbatim>\<open>baz\<close> was read
  to its end.
\<close>

definition bar_made :: "unit world" where
  "bar_made =
     new_world ()\<lparr>readers := (readers (new_world ()))(0 := \<lparr>r_s = ''BAR'', r_i = 0\<rparr>),
                   next_reader := 1\<rparr>"

definition baz_made :: "unit world" where
  "baz_made =
     new_world ()\<lparr>readers := (readers (new_world ()))
                     (0 := \<lparr>r_s = ''BAR'', r_i = 0\<rparr>, 1 := \<lparr>r_s = ''BAZ'', r_i = 0\<rparr>),
                   next_reader := 2\<rparr>"

definition baz_read :: "unit world" where
  "baz_read = test_world\<lparr>readers := (readers test_world)(1 := \<lparr>r_s = ''BAZ'', r_i = 3\<rparr>)\<rparr>"

text \<open>The tree of the tests has no foreign object, so this \<^verbatim>\<open>Stat\<close> is never called.\<close>

definition no_ext :: "unit xStat" where
  "no_ext s = (Inl (ExtError ''no such object''), s)"

subsection \<open>A directory with foreign objects\<close>

text \<open>
  A stub that answers every \<^verbatim>\<open>Stat\<close> with the answer it holds and counts the
  calls.
\<close>

definition stub_Stat :: "(nat \<times> (error + xinfo)) xStat" where
  "stub_Stat s = (snd s, (Suc (fst s), snd s))"

definition a_file :: file_struct where
  "a_file = \<lparr>f_name = ''a'', f_size = 0, f_modTime = zero_time, f_Reader = 0\<rparr>"

text \<open>
  Directory 0 holds the file \<^verbatim>\<open>a\<close>, a foreign object named \<^verbatim>\<open>tmp\<close> that says it
  is a directory, and a foreign object whose \<^verbatim>\<open>Stat\<close> fails; directory 1 holds
  the failing object only.
\<close>

definition ext_world :: "(nat \<times> (error + xinfo)) world" where
  "ext_world =
     \<lparr>dirs = (\<lambda>a. \<lparr>d_name = '''', d_files = [], d_position = 0\<rparr>)
        (0 := \<lparr>d_name = '''', d_files = [FileV a_file, Ext 0, Ext 1], d_position = 0\<rparr>,
         1 := \<lparr>d_name = ''d'', d_files = [Ext 1], d_position = 0\<rparr>),
      readers = (\<lambda>a. \<lparr>r_s = '''', r_i = 0\<rparr>),
      exts = (\<lambda>a. (0, Inl (ExtError ''stat failed'')))
        (0 := (0, Inr \<lparr>x_name = ''tmp'', x_isDir = True\<rparr>)),
      next_dir = 2, next_reader = 1\<rparr>"

text \<open>
  Directory 0 holds a foreign object that answers \<^verbatim>\<open>Stat\<close>, with the name \<^verbatim>\<open>tmp\<close>,
  and then the file \<^verbatim>\<open>a\<close>.
\<close>

definition tmp_world :: "(nat \<times> (error + xinfo)) world" where
  "tmp_world =
     \<lparr>dirs = (\<lambda>a. \<lparr>d_name = '''', d_files = [], d_position = 0\<rparr>)
        (0 := \<lparr>d_name = '''', d_files = [Ext 0, FileV a_file], d_position = 0\<rparr>),
      readers = (\<lambda>a. \<lparr>r_s = '''', r_i = 0\<rparr>),
      exts = (\<lambda>a. (0, Inr \<lparr>x_name = ''tmp'', x_isDir = False\<rparr>)),
      next_dir = 1, next_reader = 1\<rparr>"

text \<open>That store after the foreign object was asked once.\<close>

definition tmp_world_asked :: "(nat \<times> (error + xinfo)) world" where
  "tmp_world_asked =
     tmp_world\<lparr>exts := (exts tmp_world)(0 := (1, Inr \<lparr>x_name = ''tmp'', x_isDir = False\<rparr>))\<rparr>"

subsection \<open>A file system with a file named "." and two files of one name\<close>

definition dotFS :: "(addr \<times> unit world) outcome" where
  "dotFS =
     (case File (new_world ()) ''a'' ''first'' [] of
        Panic m \<Rightarrow> Panic m
      | Returns (first, w1) \<Rightarrow>
     (case File w1 ''a'' ''second'' [] of
        Panic m \<Rightarrow> Panic m
      | Returns (second, w2) \<Rightarrow>
     (case File w2 ''.'' ''X'' [] of
        Panic m \<Rightarrow> Panic m
      | Returns (dot, w3) \<Rightarrow> Returns (FileSystem w3 [first, second, dot]))))"

definition first_file :: file_struct where
  "first_file = \<lparr>f_name = ''a'', f_size = 5, f_modTime = zero_time, f_Reader = 0\<rparr>"

definition second_file :: file_struct where
  "second_file = \<lparr>f_name = ''a'', f_size = 6, f_modTime = zero_time, f_Reader = 1\<rparr>"

definition dot_file :: file_struct where
  "dot_file = \<lparr>f_name = ''.'', f_size = 1, f_modTime = zero_time, f_Reader = 2\<rparr>"

text \<open>The store that \<open>dotFS\<close> builds; its root is the directory at address 0.\<close>

definition dot_world :: "unit world" where
  "dot_world =
     \<lparr>dirs = (\<lambda>a. \<lparr>d_name = '''', d_files = [], d_position = 0\<rparr>)
        (0 := \<lparr>d_name = '''', d_files = [FileV first_file, FileV second_file, FileV dot_file],
               d_position = 0\<rparr>),
      readers = (\<lambda>a. \<lparr>r_s = '''', r_i = 0\<rparr>)
        (0 := \<lparr>r_s = ''first'', r_i = 0\<rparr>,
         1 := \<lparr>r_s = ''second'', r_i = 0\<rparr>,
         2 := \<lparr>r_s = ''X'', r_i = 0\<rparr>),
      exts = (\<lambda>a. ()), next_dir = 1, next_reader = 3\<rparr>"

subsection \<open>The directory of the listing tests\<close>

text \<open>
  \<^verbatim>\<open>testDir\<close> of the test file: the directory \<^verbatim>\<open>foo\<close> at address 0 with five empty
  files.
\<close>

definition empty_file :: "string \<Rightarrow> addr \<Rightarrow> file_struct" where
  "empty_file name rd = \<lparr>f_name = name, f_size = 0, f_modTime = zero_time, f_Reader = rd\<rparr>"

definition testDir_files :: "node list" where
  "testDir_files =
     [FileV (empty_file ''one'' 0), FileV (empty_file ''two'' 1), FileV (empty_file ''three'' 2),
      FileV (empty_file ''four'' 3), FileV (empty_file ''five'' 4)]"

definition testDir_world :: "unit world" where
  "testDir_world =
     \<lparr>dirs = (\<lambda>a. \<lparr>d_name = '''', d_files = [], d_position = 0\<rparr>)
        (0 := \<lparr>d_name = ''foo'', d_files = testDir_files, d_position = 0\<rparr>),
      readers = (\<lambda>a. \<lparr>r_s = '''', r_i = 0\<rparr>),
      exts = (\<lambda>a. ()), next_dir = 1, next_reader = 5\<rparr>"

section \<open>Path resolution\<close>

declare Open.simps [simp del]

lemma SplitN2_no_slash: "cut_slash name = None \<Longrightarrow> SplitN2 name = [name]"
  by (simp add: SplitN2_def)

lemma SplitN2_slash: "cut_slash name = Some (h, r) \<Longrightarrow> SplitN2 name = [h, r]"
  by (simp add: SplitN2_def)

lemma Open_no_slash: "cut_slash name = None \<Longrightarrow> Open X w d name = find_dir X w d name"
  by (subst Open.simps) (simp add: SplitN2_no_slash split: prod.splits)

lemma Open_slash:
  "cut_slash name = Some (h, r) \<Longrightarrow>
   Open X w d name =
     (case find_dir X w d h of
        (Inr (DirP subDir), w') \<Rightarrow> Open X w' subDir r
      | (Inr (FileV f), w') \<Rightarrow> (Inl ErrNotExist, w')
      | (Inr (Ext x), w') \<Rightarrow> (Inl ErrNotExist, w')
      | (Inl e, w') \<Rightarrow> (Inl ErrNotExist, w'))"
  by (subst Open.simps) (simp add: SplitN2_slash split: prod.splits sum.splits node.splits)

lemma find_dir_self [simp]:
  "find_dir X w d '''' = (Inr (DirP d), w)" "find_dir X w d ''.'' = (Inr (DirP d), w)"
  by (simp_all add: find_dir_def)

text \<open>
  C1: on a directory \<open>root\<close> the paths \<^verbatim>\<open>""\<close>, \<^verbatim>\<open>"."\<close> and \<^verbatim>\<open>"/"\<close> open without
  an error and give the pointer \<open>root\<close> itself, with the store as it was; and
  for every path \<open>p\<close>, opening \<^verbatim>\<open>"/" + p\<close> gives what opening \<open>p\<close> gives, the
  same node or the same error, and the same store.
\<close>

theorem Open_self_and_leading_slash:
  "Open X w root '''' = (Inr (DirP root), w)
   \<and> Open X w root ''.'' = (Inr (DirP root), w)
   \<and> Open X w root ''/'' = (Inr (DirP root), w)
   \<and> Open X w root (CHR ''/'' # p) = Open X w root p"
proof -
  have slash: "Open X w root (CHR ''/'' # q) = Open X w root q" for q
    by (simp add: Open_slash [of _ "''''" q])
  have empty: "Open X w root '''' = (Inr (DirP root), w)"
    by (simp add: Open_no_slash)
  have dot: "Open X w root ''.'' = (Inr (DirP root), w)"
    by (simp add: Open_no_slash)
  from slash [of "''''"] empty have "Open X w root ''/'' = (Inr (DirP root), w)"
    by simp
  with slash empty dot show ?thesis
    by simp
qed

lemma SplitN2_two: "SplitN2 p = [h, rest] \<longleftrightarrow> cut_slash p = Some (h, rest)"
  by (auto simp: SplitN2_def split: option.splits)

lemma cut_slash_append_None: "cut_slash p = None \<Longrightarrow> cut_slash (p @ ''/'') = Some (p, '''')"
  by (induction p) (auto split: if_splits option.splits)

lemma cut_slash_append_Some: "cut_slash p = Some (h, r) \<Longrightarrow> cut_slash (p @ q) = Some (h, r @ q)"
  by (induction p arbitrary: h) (auto split: if_splits option.splits)

lemma testFS_builds_test_world: "testFS = Returns (4, test_world)"
  by (simp add: testFS_def test_world_def new_world_def File_def NewReader_def Dir_def
      new_dir_def FileSystem_def bar_file_def baz_file_def hello_file_def eval_nat_numeral)

subsection \<open>Trailing separators\<close>

text \<open>
  C2, as the claim states it, fails: in the tree of the tests \<^verbatim>\<open>"foo/"\<close> opens the
  directory \<^verbatim>\<open>foo\<close> and \<^verbatim>\<open>"/"\<close> opens the root, since \<^verbatim>\<open>find\<close> takes the empty
  last segment for the directory itself.
\<close>

theorem Open_trailing_slash_counterexample:
  "Open no_ext test_world 4 ''foo/'' = (Inr (DirP 3), test_world)
   \<and> Open no_ext test_world 4 ''/'' = (Inr (DirP 4), test_world)"
  by (simp add: Open_slash Open_no_slash find_dir_def test_world_def bar_file_def)

text \<open>
  C2, amended: opening \<^verbatim>\<open>p + "/"\<close> gives the directory that opening \<open>p\<close> gives
  when that is a directory of this package, and fails with \<open>ErrNotExist\<close> and
  no node in every other case: when \<open>p\<close> opens a regular file or a foreign
  object, and when opening \<open>p\<close> fails.
\<close>

theorem Open_trailing_slash:
  "Open X w d (p @ ''/'') =
     (case Open X w d p of
        (Inr (DirP subDir), w') \<Rightarrow> (Inr (DirP subDir), w')
      | (Inr (FileV f), w') \<Rightarrow> (Inl ErrNotExist, w')
      | (Inr (Ext x), w') \<Rightarrow> (Inl ErrNotExist, w')
      | (Inl e, w') \<Rightarrow> (Inl ErrNotExist, w'))"
proof (induction p arbitrary: w d rule: length_induct)
  case (1 p)
  show ?case
  proof (cases "cut_slash p")
    case None
    then show ?thesis
      by (simp add: Open_slash [OF cut_slash_append_None] Open_no_slash
          split: prod.splits sum.splits node.splits)
  next
    case (Some hr)
    then obtain h r where c: "cut_slash p = Some (h, r)"
      by (cases hr) simp
    then have "length r < length p"
      by (rule cut_slash_shorter)
    with 1 have IH: "\<And>w d. Open X w d (r @ ''/'') =
     (case Open X w d r of
        (Inr (DirP subDir), w') \<Rightarrow> (Inr (DirP subDir), w')
      | (Inr (FileV f), w') \<Rightarrow> (Inl ErrNotExist, w')
      | (Inr (Ext x), w') \<Rightarrow> (Inl ErrNotExist, w')
      | (Inl e, w') \<Rightarrow> (Inl ErrNotExist, w'))"
      by blast
    show ?thesis
      by (simp add: Open_slash [OF cut_slash_append_Some [OF c]] Open_slash [OF c] IH
          split: prod.splits sum.splits node.splits)
  qed
qed

subsection \<open>Descent needs a directory of this package\<close>

text \<open>
  C9: when the path has a separator (\<^verbatim>\<open>SplitN\<close> gives a head and a rest) and
  what \<^verbatim>\<open>find\<close> gives for the head is not a \<^verbatim>\<open>*dir\<close> pointer (a regular file, a
  foreign object whatever its \<^verbatim>\<open>IsDir\<close> says, or an error), \<^verbatim>\<open>Open\<close> fails with
  \<open>ErrNotExist\<close>.
\<close>

theorem Open_descends_only_into_dir:
  assumes "SplitN2 p = [h, rest]" and "find_dir X w d h = (res, w')"
    and "\<forall>subDir. res \<noteq> Inr (DirP subDir)"
  shows "Open X w d p = (Inl ErrNotExist, w')"
proof -
  from assms(1) have "cut_slash p = Some (h, rest)"
    by (simp add: SplitN2_two)
  then show ?thesis
    using assms(2,3) by (auto simp: Open_slash split: sum.splits node.splits)
qed

lemma ext_world_find_tmp:
  "find_dir stub_Stat ext_world 0 ''tmp'' =
     (Inr (Ext 0),
      ext_world\<lparr>exts := (exts ext_world)(0 := (1, Inr \<lparr>x_name = ''tmp'', x_isDir = True\<rparr>))\<rparr>)"
  by (simp add: find_dir_def ext_world_def stub_Stat_def a_file_def)

theorem Open_descends_only_into_dir_witness:
  "SplitN2 ''tmp/x'' = [''tmp'', ''x'']
   \<and> fst (find_dir stub_Stat ext_world 0 ''tmp'') = Inr (Ext 0)
   \<and> fst (Stat stub_Stat ext_world (Ext 0)) = Inr (FI_ext \<lparr>x_name = ''tmp'', x_isDir = True\<rparr>)
   \<and> IsDir (FI_ext \<lparr>x_name = ''tmp'', x_isDir = True\<rparr>)
   \<and> fst (Open stub_Stat ext_world 0 ''tmp/x'') = Inl ErrNotExist"
proof -
  have s: "SplitN2 ''tmp/x'' = [''tmp'', ''x'']"
    by (simp add: SplitN2_def)
  have n: "\<forall>subDir. (Inr (Ext 0) :: error + node) \<noteq> Inr (DirP subDir)"
    by simp
  have st: "fst (Stat stub_Stat ext_world (Ext 0)) = Inr (FI_ext \<lparr>x_name = ''tmp'', x_isDir = True\<rparr>)"
    by (simp add: ext_world_def stub_Stat_def)
  show ?thesis
    using Open_descends_only_into_dir [OF s ext_world_find_tmp n] s st
    by (simp add: ext_world_find_tmp)
qed

subsection \<open>Opening changes nothing\<close>

lemma find_loop_pkg:
  assumes "\<forall>n\<in>set fs. \<forall>x. n \<noteq> Ext x"
  shows "snd (find_loop X w fs name) = w
       \<and> (\<forall>n. fst (find_loop X w fs name) = Inr n \<longrightarrow> n \<in> set fs)"
  using assms
proof (induction fs)
  case Nil
  then show ?case by simp
next
  case (Cons f fs)
  then show ?case by (cases f) auto
qed

lemma find_dir_pkg:
  assumes "pkg_tree w A" and "d \<in> A"
  shows "snd (find_dir X w d name) = w
       \<and> (\<forall>b. fst (find_dir X w d name) = Inr (DirP b) \<longrightarrow> b \<in> A)"
proof -
  have noext: "\<forall>n\<in>set (d_files (dirs w d)). \<forall>x. n \<noteq> Ext x"
    using assms by (auto simp: pkg_tree_def split: node.splits)
  have sub: "\<forall>b. DirP b \<in> set (d_files (dirs w d)) \<longrightarrow> b \<in> A"
    using assms by (auto simp: pkg_tree_def split: node.splits)
  show ?thesis
    using find_loop_pkg [OF noext, of X w name] sub assms(2)
    by (auto simp: find_dir_def)
qed

text \<open>
  C10: when the tree under \<open>root\<close> is built from regular files and directories
  of this package only, \<^verbatim>\<open>Open\<close> returns the store as it was, for every path,
  whether it finds a node or fails: no read cursor and no position has changed.
\<close>

theorem Open_changes_nothing:
  assumes "pkg_tree w A" and "root \<in> A"
  shows "snd (Open X w root p) = w"
  using assms(2)
proof (induction p arbitrary: root rule: length_induct)
  case (1 p)
  show ?case
  proof (cases "cut_slash p")
    case None
    then show ?thesis
      using find_dir_pkg [OF assms(1) "1.prems", of X p] by (simp add: Open_no_slash)
  next
    case (Some hr)
    then obtain h r where c: "cut_slash p = Some (h, r)"
      by (cases hr) simp
    have short: "length r < length p"
      using c by (rule cut_slash_shorter)
    obtain res w' where fd: "find_dir X w root h = (res, w')"
      by (cases "find_dir X w root h")
    with find_dir_pkg [OF assms(1) "1.prems", of X h]
    have w': "w' = w" and sub: "\<And>b. res = Inr (DirP b) \<Longrightarrow> b \<in> A"
      by auto
    show ?thesis
    proof (cases "\<exists>b. res = Inr (DirP b)")
      case True
      then obtain b where b: "res = Inr (DirP b)"
        by blast
      with sub have "b \<in> A"
        by simp
      with 1 short have "snd (Open X w b r) = w"
        by blast
      with c fd b w' show ?thesis
        by (simp add: Open_slash)
    next
      case False
      with c fd w' show ?thesis
        by (auto simp: Open_slash split: sum.splits node.splits)
    qed
  qed
qed

lemma test_world_pkg_tree: "pkg_tree test_world {0, 1, 2, 3, 4}"
  by (simp add: pkg_tree_def test_world_def)

theorem Open_changes_nothing_witness:
  "pkg_tree test_world {0, 1, 2, 3, 4} \<and> (4::nat) \<in> {0, 1, 2, 3, 4}
   \<and> snd (Open no_ext test_world 4 ''foo/bar'') = test_world
   \<and> fst (Open no_ext test_world 4 ''foo/bar'') = Inr (FileV bar_file)
   \<and> snd (Open no_ext test_world 4 ''foo/oops'') = test_world
   \<and> fst (Open no_ext test_world 4 ''foo/oops'') = Inl ErrNotExist"
proof -
  have m: "(4::nat) \<in> {0, 1, 2, 3, 4}"
    by simp
  have ok: "fst (Open no_ext test_world 4 ''foo/bar'') = Inr (FileV bar_file)"
    by (simp add: Open_slash Open_no_slash find_dir_def test_world_def bar_file_def)
  have bad: "fst (Open no_ext test_world 4 ''foo/oops'') = Inl ErrNotExist"
    by (simp add: Open_slash Open_no_slash find_dir_def test_world_def bar_file_def)
  show ?thesis
    using Open_changes_nothing [OF test_world_pkg_tree m, of no_ext "''foo/bar''"]
      Open_changes_nothing [OF test_world_pkg_tree m, of no_ext "''foo/oops''"]
      test_world_pkg_tree ok bad
    by simp
qed

section \<open>Regular files\<close>

declare ReadFrom.simps [simp del]

lemma Stat_readers: "readers (snd (Stat X w n)) = readers w"
  by (cases n) (auto split: prod.splits sum.splits)

lemma Stat_dirs: "dirs (snd (Stat X w n)) = dirs w"
  by (cases n) (auto split: prod.splits sum.splits)

lemma find_loop_readers: "readers (snd (find_loop X w fs name)) = readers w"
proof (induction fs arbitrary: w)
  case Nil
  then show ?case by simp
next
  case (Cons f fs)
  show ?case
    using Stat_readers [of X w f] Cons.IH
    by (auto split: prod.splits sum.splits)
qed

lemma find_dir_readers: "readers (snd (find_dir X w d name)) = readers w"
  by (simp add: find_dir_def find_loop_readers)

lemma Open_readers: "readers (snd (Open X w d p)) = readers w"
proof (induction p arbitrary: w d rule: length_induct)
  case (1 p)
  show ?case
  proof (cases "cut_slash p")
    case None
    then show ?thesis
      by (simp add: Open_no_slash find_dir_readers)
  next
    case (Some hr)
    then obtain h r where c: "cut_slash p = Some (h, r)"
      by (cases hr) simp
    have short: "length r < length p"
      using c by (rule cut_slash_shorter)
    obtain res w' where fd: "find_dir X w d h = (res, w')"
      by (cases "find_dir X w d h")
    with find_dir_readers [of X w d h] have w': "readers w' = readers w"
      by simp
    from 1 short have IH: "\<And>b. readers (snd (Open X w' b r)) = readers w'"
      by blast
    show ?thesis
      using c fd w' IH by (auto simp: Open_slash split: sum.splits node.splits)
  qed
qed

text \<open>\<^verbatim>\<open>ReadFrom\<close> delivers what is after the read cursor, and no error.\<close>

lemma ReadFrom_rest:
  "fst (ReadFrom w f buf) =
     (buf @ drop (r_i (readers w (f_Reader f))) (r_s (readers w (f_Reader f))), None)"
proof (induction w f buf rule: ReadFrom.induct)
  case (1 w f buf)
  let ?rd = "readers w (f_Reader f)"
  show ?case
  proof (cases "length (r_s ?rd) \<le> r_i ?rd")
    case True
    then show ?thesis
      by (subst ReadFrom.simps) (simp add: file_Read_def Reader_Read_def)
  next
    case False
    define b where "b = take MinRead (drop (r_i ?rd) (r_s ?rd))"
    define w' where "w' = w\<lparr>readers := (readers w)(f_Reader f := ?rd\<lparr>r_i := r_i ?rd + length b\<rparr>)\<rparr>"
    have rd: "file_Read w f MinRead = ((b, None), w')"
      using False by (simp add: file_Read_def Reader_Read_def b_def w'_def Let_def)
    have "fst (ReadFrom w' f (buf @ b)) =
      ((buf @ b) @ drop (r_i (readers w' (f_Reader f))) (r_s (readers w' (f_Reader f))), None)"
      using "1.IH" [OF rd [symmetric] refl refl] by simp
    moreover have "b @ drop (r_i ?rd + length b) (r_s ?rd) = drop (r_i ?rd) (r_s ?rd)"
    proof -
      have "drop (r_i ?rd + length b) (r_s ?rd) = drop (length b) (drop (r_i ?rd) (r_s ?rd))"
        by (simp add: add.commute)
      also have "\<dots> = drop MinRead (drop (r_i ?rd) (r_s ?rd))"
        by (auto simp: b_def min_def)
      finally have "drop (r_i ?rd + length b) (r_s ?rd) = drop MinRead (drop (r_i ?rd) (r_s ?rd))" .
      moreover have "b @ drop MinRead (drop (r_i ?rd) (r_s ?rd)) = drop (r_i ?rd) (r_s ?rd)"
        unfolding b_def by (rule append_take_drop_id)
      ultimately show ?thesis
        by simp
    qed
    ultimately show ?thesis
      by (subst ReadFrom.simps) (simp add: rd w'_def)
  qed
qed

text \<open>
  \<^verbatim>\<open>File\<close> makes a reader that holds the contents with the cursor at 0, and
  \<^verbatim>\<open>file.Close\<close> puts the cursor back to 0 and keeps the contents.
\<close>

lemma File_options_Reader: "File_options f os = Returns f' \<Longrightarrow> f_Reader f' = f_Reader f"
  by (induction f os rule: File_options.induct) auto

lemma File_makes_reader:
  assumes "File w name contents options = Returns (FileV f, w')"
  shows "readers w' (f_Reader f) = \<lparr>r_s = contents, r_i = 0\<rparr>"
  using assms
  by (auto simp: File_def NewReader_def split: outcome.splits dest!: File_options_Reader)

lemma file_Close_rewinds:
  "\<exists>w'. file_Close w f = Returns w'
     \<and> r_i (readers w' (f_Reader f)) = 0
     \<and> r_s (readers w' (f_Reader f)) = r_s (readers w (f_Reader f))"
  by (simp add: file_Close_def file_Seek_def Reader_Seek_def)

text \<open>
  C7: \<^verbatim>\<open>file.Size\<close> is the number of bytes after the read cursor, the bytes not
  read yet; a \<^verbatim>\<open>Read\<close> that delivers \<open>b\<close> makes it smaller by the length of
  \<open>b\<close>, so that after reading \<open>k\<close> bytes of a content of \<open>n\<close> bytes from its
  start it is \<open>n - k\<close>; \<^verbatim>\<open>dir.Size\<close> is 0.
\<close>

theorem Size_is_unread_bytes:
  "file_Size w f
     = int (length (drop (r_i (readers w (f_Reader f))) (r_s (readers w (f_Reader f)))))
   \<and> (file_Read w f k = ((b, e), w') \<longrightarrow> file_Size w' f = file_Size w f - int (length b))
   \<and> (r_i (readers w (f_Reader f)) = 0 \<and> k \<le> length (r_s (readers w (f_Reader f)))
        \<and> file_Read w f k = ((b, e), w')
      \<longrightarrow> length b = k \<and> file_Size w' f = int (length (r_s (readers w (f_Reader f)))) - int k)
   \<and> dir_Size w d = 0"
  by (auto simp: file_Size_def Reader_Len_def file_Read_def Reader_Read_def Let_def dir_Size_def
      split: if_splits)

theorem Size_is_unread_bytes_witness:
  "file_Read test_world hello_file 2 =
     ((''he'', None),
      test_world\<lparr>readers := (readers test_world)(2 := \<lparr>r_s = ''hello'', r_i = 2\<rparr>)\<rparr>)
   \<and> file_Size test_world hello_file = 5
   \<and> file_Size (test_world\<lparr>readers := (readers test_world)(2 := \<lparr>r_s = ''hello'', r_i = 2\<rparr>)\<rparr>)
        hello_file = 3
   \<and> dir_Size test_world 4 = 0"
proof -
  have rd: "file_Read test_world hello_file 2 =
     ((''he'', None),
      test_world\<lparr>readers := (readers test_world)(2 := \<lparr>r_s = ''hello'', r_i = 2\<rparr>)\<rparr>)"
    by (simp add: file_Read_def Reader_Read_def test_world_def hello_file_def eval_nat_numeral)
  have i: "r_i (readers test_world (f_Reader hello_file)) = 0"
    by (simp add: test_world_def hello_file_def)
  have s: "r_s (readers test_world (f_Reader hello_file)) = ''hello''"
    by (simp add: test_world_def hello_file_def)
  show ?thesis
    using Size_is_unread_bytes [of test_world hello_file 2 "''he''" None
        "test_world\<lparr>readers := (readers test_world)(2 := \<lparr>r_s = ''hello'', r_i = 2\<rparr>)\<rparr>" 4]
      rd i s
    by simp
qed

text \<open>
  C8: a file made without an option has the zero time as its \<^verbatim>\<open>ModTime\<close>, a file
  made with a time has that time, and in general the last option given is that
  time; \<^verbatim>\<open>file.ModTime\<close> is a field read, which cannot fail. \<^verbatim>\<open>dir.ModTime\<close>
  panics.
\<close>

theorem ModTime_of_file_and_dir:
  "(\<exists>f w'. File w name contents [] = Returns (FileV f, w') \<and> file_ModTime f = zero_time)
   \<and> (\<exists>f w'. File w name contents [OptTime t] = Returns (FileV f, w') \<and> file_ModTime f = t)
   \<and> (File w name contents options = Returns (FileV f, w') \<and> options \<noteq> []
        \<longrightarrow> last options = OptTime (file_ModTime f))
   \<and> dir_ModTime w d = Panic ''unimplemented''"
proof -
  have opts: "File_options g os = Returns g' \<Longrightarrow> os \<noteq> [] \<Longrightarrow> last os = OptTime (f_modTime g')"
    for g g' os
    by (induction g os rule: File_options.induct) (auto split: if_splits)
  have "File w name contents options = Returns (FileV f, w') \<and> options \<noteq> []
        \<longrightarrow> last options = OptTime (file_ModTime f)"
    by (auto simp: File_def NewReader_def file_ModTime_def split: outcome.splits dest: opts)
  then show ?thesis
    by (simp add: File_def NewReader_def file_ModTime_def dir_ModTime_def)
qed

theorem ModTime_of_file_and_dir_witness:
  "File (new_world ()) ''bar'' ''BAR'' [OptTime now]
     = Returns (FileV bar_file,
         new_world ()\<lparr>readers := (readers (new_world ()))(0 := \<lparr>r_s = ''BAR'', r_i = 0\<rparr>),
                       next_reader := 1\<rparr>)
   \<and> [OptTime now] \<noteq> []
   \<and> last [OptTime now] = OptTime (file_ModTime bar_file)
   \<and> file_ModTime bar_file = now
   \<and> dir_ModTime test_world 4 = Panic ''unimplemented''"
proof -
  have mk: "File (new_world ()) ''bar'' ''BAR'' [OptTime now]
     = Returns (FileV bar_file,
         new_world ()\<lparr>readers := (readers (new_world ()))(0 := \<lparr>r_s = ''BAR'', r_i = 0\<rparr>),
                       next_reader := 1\<rparr>)"
    by (simp add: File_def NewReader_def new_world_def bar_file_def)
  show ?thesis
    using ModTime_of_file_and_dir [of "new_world ()" "''bar''" "''BAR''" now "[OptTime now]" bar_file
        "new_world ()\<lparr>readers := (readers (new_world ()))(0 := \<lparr>r_s = ''BAR'', r_i = 0\<rparr>),
                       next_reader := 1\<rparr>" 4] mk
    by (simp add: dir_ModTime_def)
qed

section \<open>Directory listing\<close>

subsection \<open>Facts about the store and \<^verbatim>\<open>Stat\<close>\<close>

lemma at_position_same: "d_position (dirs w d) = p \<Longrightarrow> at_position w d p = w"
  by (erule subst) (simp add: at_position_def)

lemma at_position_twice [simp]: "at_position (at_position w d p) d q = at_position w d q"
  by (simp add: at_position_def)

lemma at_position_dirs [simp]:
  "d_files (dirs (at_position w d p) d) = d_files (dirs w d)"
  "d_position (dirs (at_position w d p) d) = p"
  by (simp_all add: at_position_def)

lemma at_position_same_dirs:
  "dirs w' = dirs w \<Longrightarrow> d_position (dirs w d) = p \<Longrightarrow> at_position w' d p = w'"
  by (rule at_position_same) simp

lemma slice_to_length [simp]: "slice_to r (int (length r)) = Returns r"
  by (simp add: slice_to_def)

lemma Stat_pkg: "\<forall>x. n \<noteq> Ext x \<Longrightarrow> \<exists>st. Stat X w n = (Inr st, w)"
  by (cases n) auto

lemma Stat_at_position:
  "Stat X (at_position w d p) n = (case Stat X w n of (res, w') \<Rightarrow> (res, at_position w' d p))"
  by (cases n) (auto simp: at_position_def split: prod.splits sum.splits)

subsection \<open>Asking the children one after the other\<close>

lemma stat_children_Inl:
  "Stat X w n = (Inl e, w') \<Longrightarrow> stat_children X w (n # ns) = (([], Some e), w')"
  by simp

lemma stat_children_Inr:
  "Stat X w n = (Inr fi, w') \<Longrightarrow> stat_children X w' ns = ((fis, err), w'') \<Longrightarrow>
   stat_children X w (n # ns) = ((fi # fis, err), w'')"
  by simp

lemma stat_children_Inr_proj:
  "Stat X w n = (Inr fi, w1) \<Longrightarrow>
   stat_children X w (n # ns) =
     ((fi # fst (fst (stat_children X w1 ns)), snd (fst (stat_children X w1 ns))),
      snd (stat_children X w1 ns))"
  by (simp split: prod.splits)

declare stat_children.simps(2) [simp del]

lemma stat_children_dirs:
  "dirs (snd (stat_children X w ns)) = dirs w \<and> readers (snd (stat_children X w ns)) = readers w"
proof (induction ns arbitrary: w)
  case Nil
  then show ?case by simp
next
  case (Cons n ns)
  obtain res w1 where st: "Stat X w n = (res, w1)"
    by (cases "Stat X w n")
  from Stat_dirs [of X w n] Stat_readers [of X w n] st
  have same: "dirs w1 = dirs w" "readers w1 = readers w"
    by simp_all
  show ?case
  proof (cases res)
    case (Inl e)
    with st same show ?thesis
      by (simp add: stat_children_Inl)
  next
    case (Inr fi)
    obtain fis err w2 where tl: "stat_children X w1 ns = ((fis, err), w2)"
      by (cases "stat_children X w1 ns") auto
    from Cons.IH [of w1] tl have "dirs w2 = dirs w1" "readers w2 = readers w1"
      by simp_all
    with st Inr tl same show ?thesis
      by (simp add: stat_children_Inr)
  qed
qed

lemma stat_children_at_position:
  "stat_children X (at_position w d p) ns =
     (case stat_children X w ns of (res, w') \<Rightarrow> (res, at_position w' d p))"
proof (induction ns arbitrary: w)
  case Nil
  then show ?case by simp
next
  case (Cons n ns)
  then show ?case
    by (simp add: stat_children.simps Stat_at_position split: prod.splits sum.splits)
qed

lemma stat_children_append:
  "stat_children X w (xs @ ys) =
     (case stat_children X w xs of
        ((a, Some e), w1) \<Rightarrow> ((a, Some e), w1)
      | ((a, None), w1) \<Rightarrow>
          (case stat_children X w1 ys of ((b, err), w2) \<Rightarrow> ((a @ b, err), w2)))"
proof (induction xs arbitrary: w)
  case Nil
  then show ?case by (simp split: prod.splits)
next
  case (Cons x xs)
  then show ?case
    by (simp add: stat_children.simps split: prod.splits sum.splits option.splits)
qed

lemma stat_children_length:
  "stat_children X w ns = ((fis, err), w') \<Longrightarrow>
   (case err of None \<Rightarrow> length fis = length ns | Some e \<Rightarrow> length fis < length ns)"
proof (induction ns arbitrary: w fis)
  case Nil
  then show ?case by auto
next
  case (Cons n ns)
  then show ?case
    by (fastforce simp: stat_children.simps split: prod.splits sum.splits option.splits)
qed

lemma stat_children_take:
  assumes "stat_children X w ns = ((fis, err), w')" and "i \<le> length fis"
  shows "fst (stat_children X w (take i ns)) = (take i fis, None)"
  using assms
proof (induction ns arbitrary: w fis i)
  case Nil
  then show ?case by auto
next
  case (Cons n ns)
  show ?case
  proof (cases i)
    case 0
    then show ?thesis by simp
  next
    case (Suc k)
    with Cons.prems obtain fi w1 rest where
      st: "Stat X w n = (Inr fi, w1)" and fis: "fis = fi # rest"
      and tl: "stat_children X w1 ns = ((rest, err), w')"
      by (auto simp: stat_children.simps split: prod.splits sum.splits)
    from Cons.prems Suc fis have "k \<le> length rest"
      by simp
    from Cons.IH [OF tl this] show ?thesis
      using st fis Suc by (simp add: stat_children_Inr_proj prod_eq_iff)
  qed
qed

text \<open>Each info is what that child answered after the children before it were asked.\<close>

lemma stat_children_nth:
  assumes "stat_children X w ns = ((fis, err), w')" and "i < length fis"
  shows "fst (Stat X (snd (stat_children X w (take i ns))) (ns ! i)) = Inr (fis ! i)"
  using assms
proof (induction ns arbitrary: w fis i)
  case Nil
  then show ?case by auto
next
  case (Cons n ns)
  from Cons.prems obtain fi w1 rest where
    st: "Stat X w n = (Inr fi, w1)" and fis: "fis = fi # rest"
    and tl: "stat_children X w1 ns = ((rest, err), w')"
    by (auto simp: stat_children.simps split: prod.splits sum.splits)
  show ?case
  proof (cases i)
    case 0
    with st fis show ?thesis by simp
  next
    case (Suc k)
    with Cons.prems fis have "k < length rest"
      by simp
    from Cons.IH [OF tl this] show ?thesis
      using st fis Suc by (simp add: stat_children_Inr_proj)
  qed
qed

lemma stat_children_error:
  assumes "stat_children X w ns = ((fis, Some e), w')"
  shows "fst (Stat X (snd (stat_children X w (take (length fis) ns))) (ns ! length fis)) = Inl e"
  using assms
proof (induction ns arbitrary: w fis)
  case Nil
  then show ?case by auto
next
  case (Cons n ns)
  show ?case
  proof (cases "fst (Stat X w n)")
    case (Inl e')
    with Cons.prems show ?thesis
      by (auto simp: stat_children.simps split: prod.splits sum.splits)
  next
    case (Inr fi)
    with Cons.prems obtain w1 rest where
      st: "Stat X w n = (Inr fi, w1)" and fis: "fis = fi # rest"
      and tl: "stat_children X w1 ns = ((rest, Some e), w')"
      by (auto simp: stat_children.simps split: prod.splits sum.splits)
    from Cons.IH [OF tl] show ?thesis
      using st fis by (simp add: stat_children_Inr_proj)
  qed
qed

lemma stat_children_pkg:
  assumes "\<forall>n\<in>set ns. \<forall>x. n \<noteq> Ext x"
  shows "snd (stat_children X w ns) = w \<and> snd (fst (stat_children X w ns)) = None"
  using assms
proof (induction ns)
  case Nil
  then show ?case by simp
next
  case (Cons n ns)
  then obtain fi where "Stat X w n = (Inr fi, w)"
    using Stat_pkg [of n X w] by auto
  with Cons show ?case
    by (simp add: stat_children_Inr_proj)
qed

lemma Stat_answers:
  assumes "always_answers X S" and "foreign_in w fs S" and "n \<in> set fs"
  shows "\<exists>fi w'. Stat X w n = (Inr fi, w') \<and> foreign_in w' fs S"
proof (cases n)
  case (Ext x)
  with assms(2,3) have s: "exts w x \<in> S"
    by (auto simp: foreign_in_def split: node.splits)
  obtain res s' where X: "X (exts w x) = (res, s')"
    by (cases "X (exts w x)")
  from assms(1) s have "case X (exts w x) of (Inl e, s') \<Rightarrow> False | (Inr xi, s') \<Rightarrow> s' \<in> S"
    by (simp add: always_answers_def)
  with X obtain xi where res: "res = Inr xi" and s': "s' \<in> S"
    by (cases res) auto
  have "foreign_in (w\<lparr>exts := (exts w)(x := s')\<rparr>) fs S"
    using assms(2) s' by (auto simp: foreign_in_def split: node.splits)
  with Ext X res show ?thesis
    by simp
qed (use assms(2) in auto)

lemma stat_children_answers:
  assumes "always_answers X S" and "foreign_in w fs S" and "set ns \<subseteq> set fs"
  shows "snd (fst (stat_children X w ns)) = None \<and> foreign_in (snd (stat_children X w ns)) fs S"
  using assms(2,3)
proof (induction ns arbitrary: w)
  case Nil
  then show ?case by simp
next
  case (Cons n ns)
  from Stat_answers [OF assms(1) Cons.prems(1), of n] Cons.prems(2)
  obtain fi w1 where st: "Stat X w n = (Inr fi, w1)" and f1: "foreign_in w1 fs S"
    by auto
  from Cons.prems(2) have "set ns \<subseteq> set fs"
    by simp
  from Cons.IH [OF f1 this] show ?case
    using st by (simp add: stat_children_Inr_proj)
qed

subsection \<open>The two loops of \<^verbatim>\<open>Readdir\<close>\<close>

text \<open>
  The loop for \<^verbatim>\<open>count == 0\<close> never panics. It asks the children one after the
  other and returns the infos they answered, in their order: of all children
  with no error, or of those before the child whose \<^verbatim>\<open>Stat\<close> failed, with the
  error of that child.
\<close>

lemma Readdir_all_stat_children:
  "Readdir_all X w fs r =
     (case stat_children X w fs of ((fis, err), w') \<Rightarrow> Returns ((r @ fis, err), w'))"
proof (induction fs arbitrary: w r)
  case Nil
  then show ?case by simp
next
  case (Cons f fs)
  then show ?case
    by (simp add: stat_children.simps split: prod.splits sum.splits)
qed

text \<open>
  From a position \<open>p\<close> that is not negative and not past the end the loop for
  \<^verbatim>\<open>count != 0\<close> never panics. It asks the next \<open>n\<close> children from \<open>p\<close> on, as
  far as there are that many, returns the infos of those that answered before
  the first failure and moves the position by their number; the error is that of
  the child that failed, else \<open>EOF\<close> when fewer than \<open>n\<close> children were left.
\<close>

lemma Readdir_loop_stat_children:
  assumes "d_position (dirs w d) = int p" and "p \<le> length (d_files (dirs w d))"
  shows "Readdir_loop X w d r n =
     (case stat_children X w (take n (drop p (d_files (dirs w d)))) of
        ((fis, Some e), w') \<Rightarrow>
          Returns ((r @ fis, Some e), at_position w' d (int (p + length fis)))
      | ((fis, None), w') \<Rightarrow>
          Returns ((r @ fis, if p + n \<le> length (d_files (dirs w d)) then None else Some EOF),
                   at_position w' d (int (p + length fis))))"
  using assms
proof (induction n arbitrary: w r p)
  case 0
  then show ?case
    by (simp add: at_position_same)
next
  case (Suc n)
  let ?fs = "d_files (dirs w d)"
  show ?case
  proof (cases "p = length ?fs")
    case True
    with Suc.prems show ?thesis
      by (simp add: at_position_same)
  next
    case False
    with Suc.prems have lt: "p < length ?fs"
      by simp
    then have tk: "take (Suc n) (drop p ?fs) = ?fs ! p # take n (drop (Suc p) ?fs)"
      by (simp add: Cons_nth_drop_Suc [symmetric])
    obtain res w1 where st: "Stat X w (?fs ! p) = (res, w1)"
      by (cases "Stat X w (?fs ! p)")
    from Stat_dirs [of X w "?fs ! p"] st have same: "dirs w1 = dirs w"
      by simp
    show ?thesis
    proof (cases res)
      case (Inl e)
      have "at_position w1 d (int p) = w1"
        using same Suc.prems(1) by (intro at_position_same) simp
      with Inl st lt Suc.prems(1) tk show ?thesis
        by (simp add: stat_children_Inl)
    next
      case (Inr fi)
      let ?w2 = "at_position w1 d (int (Suc p))"
      have w2: "w1\<lparr>dirs := (dirs w1)(d := (dirs w1 d)\<lparr>d_position := d_position (dirs w1 d) + 1\<rparr>)\<rparr> = ?w2"
        using same Suc.prems(1) by (simp add: at_position_def add.commute)
      have fs2: "d_files (dirs ?w2 d) = ?fs"
        using same by simp
      obtain fis err w3 where
        tl: "stat_children X w1 (take n (drop (Suc p) ?fs)) = ((fis, err), w3)"
        by (cases "stat_children X w1 (take n (drop (Suc p) ?fs))") auto
      then have tl2: "stat_children X ?w2 (take n (drop (Suc p) ?fs)) =
          ((fis, err), at_position w3 d (int (Suc p)))"
        by (simp add: stat_children_at_position)
      have "Readdir_loop X ?w2 d (r @ [fi]) n =
        (case stat_children X ?w2 (take n (drop (Suc p) (d_files (dirs ?w2 d)))) of
          ((fis, Some e), w') \<Rightarrow>
            Returns (((r @ [fi]) @ fis, Some e), at_position w' d (int (Suc p + length fis)))
        | ((fis, None), w') \<Rightarrow>
            Returns (((r @ [fi]) @ fis,
                      if Suc p + n \<le> length (d_files (dirs ?w2 d)) then None else Some EOF),
                     at_position w' d (int (Suc p + length fis))))"
        using lt fs2 by (intro Suc.IH) simp_all
      then have IH: "Readdir_loop X ?w2 d (r @ [fi]) n =
        (case err of
           Some e \<Rightarrow> Returns ((r @ fi # fis, Some e), at_position w3 d (int (Suc p + length fis)))
         | None \<Rightarrow>
            Returns ((r @ fi # fis, if Suc p + n \<le> length ?fs then None else Some EOF),
                     at_position w3 d (int (Suc p + length fis))))"
        unfolding fs2 tl2 by (simp split: option.splits)
      have step: "Readdir_loop X w d r (Suc n) = Readdir_loop X ?w2 d (r @ [fi]) n"
        using lt Suc.prems(1) st Inr w2 by simp
      have "stat_children X w (take (Suc n) (drop p ?fs)) = ((fi # fis, err), w3)"
        unfolding tk using st Inr tl by (simp add: stat_children_Inr)
      then show ?thesis
        unfolding step IH by (simp add: add.left_commute split: option.splits)
    qed
  qed
qed

subsection \<open>Listing with \<^verbatim>\<open>count == 0\<close>\<close>

text \<open>
  C5, as the claim states it, fails: directory 0 of \<open>ext_world\<close> has three
  children, and \<^verbatim>\<open>Readdir(0)\<close> returns the infos of the first two only, with the
  error of the third, whose \<^verbatim>\<open>Stat\<close> fails.
\<close>

theorem Readdir_zero_counterexample:
  "Readdir stub_Stat ext_world 0 0 =
     Returns (([FI_file a_file, FI_ext \<lparr>x_name = ''tmp'', x_isDir = True\<rparr>],
               Some (ExtError ''stat failed'')),
       ext_world\<lparr>exts := (exts ext_world)
         (0 := (1, Inr \<lparr>x_name = ''tmp'', x_isDir = True\<rparr>),
          1 := (1, Inl (ExtError ''stat failed'')))\<rparr>)
   \<and> length (d_files (dirs ext_world 0)) = 3"
  by (simp add: Readdir_def slice_to_def ext_world_def stub_Stat_def)

text \<open>
  C5, amended: \<^verbatim>\<open>Readdir(0)\<close> returns without a panic. It returns, in their
  order, what the children of \<open>d\<close> answered to \<^verbatim>\<open>Stat\<close>, each asked once after
  those before it, up to the first child whose \<^verbatim>\<open>Stat\<close> fails, together with the
  error of that child; with no error these are the infos of all children. No
  error is reported when every child is of this package, and then the store is
  as it was, and none when the foreign children always answer \<^verbatim>\<open>Stat\<close>. Every
  directory is left as it was, the position of \<open>d\<close> too, and with any other
  position \<open>p\<close> of \<open>d\<close> the call returns the same and the position is \<open>p\<close>
  afterwards: the position is neither read nor written.
\<close>

theorem Readdir_zero_lists_until_failure:
  fixes w :: "'x world" and d :: addr
  defines "fs \<equiv> d_files (dirs w d)"
  shows
    "\<exists>r err w'. Readdir X w d 0 = Returns ((r, err), w')
       \<and> dirs w' = dirs w \<and> readers w' = readers w
       \<and> d_position (dirs w' d) = d_position (dirs w d)
       \<and> Readdir X (at_position w d p) d 0 = Returns ((r, err), at_position w' d p)
       \<and> (\<forall>i<length r. fst (Stat X (snd (stat_children X w (take i fs))) (fs ! i)) = Inr (r ! i))
       \<and> (case err of
             None \<Rightarrow> length r = length fs
           | Some e \<Rightarrow> length r < length fs
               \<and> fst (Stat X (snd (stat_children X w (take (length r) fs))) (fs ! length r)) = Inl e)
       \<and> ((\<forall>n\<in>set fs. \<forall>x. n \<noteq> Ext x) \<longrightarrow> err = None \<and> w' = w)
       \<and> (always_answers X S \<and> foreign_in w fs S \<longrightarrow> err = None)"
proof -
  obtain r err w' where sc: "stat_children X w fs = ((r, err), w')"
    by (cases "stat_children X w fs") auto
  have 1: "Readdir X w d 0 = Returns ((r, err), w')"
    using sc by (simp add: Readdir_def Readdir_all_stat_children fs_def)
  have 2: "dirs w' = dirs w" "readers w' = readers w"
    using stat_children_dirs [of X w fs] sc by simp_all
  then have 3: "d_position (dirs w' d) = d_position (dirs w d)"
    by simp
  have 4: "Readdir X (at_position w d p) d 0 = Returns ((r, err), at_position w' d p)"
    using sc by (simp add: Readdir_def Readdir_all_stat_children stat_children_at_position fs_def)
  have 5: "\<forall>i<length r. fst (Stat X (snd (stat_children X w (take i fs))) (fs ! i)) = Inr (r ! i)"
    using stat_children_nth [OF sc] by blast
  have 6: "case err of
             None \<Rightarrow> length r = length fs
           | Some e \<Rightarrow> length r < length fs
               \<and> fst (Stat X (snd (stat_children X w (take (length r) fs))) (fs ! length r)) = Inl e"
    using stat_children_length [OF sc] stat_children_error [of X w fs r _ w'] sc
    by (auto split: option.splits)
  have 7: "(\<forall>n\<in>set fs. \<forall>x. n \<noteq> Ext x) \<longrightarrow> err = None \<and> w' = w"
    using stat_children_pkg [of fs X w] sc by auto
  have 8: "always_answers X S \<and> foreign_in w fs S \<longrightarrow> err = None"
    using stat_children_answers [of X S w fs fs] sc by auto
  from 1 2 3 4 5 6 7 8 show ?thesis
    by blast
qed

lemma tmp_world_facts:
  "d_position (dirs tmp_world 0) = 0"
  "d_files (dirs tmp_world 0) = [Ext 0, FileV a_file]"
  "stat_children stub_Stat tmp_world [Ext 0] =
     (([FI_ext \<lparr>x_name = ''tmp'', x_isDir = False\<rparr>], None), tmp_world_asked)"
  "stat_children stub_Stat tmp_world [Ext 0, FileV a_file] =
     (([FI_ext \<lparr>x_name = ''tmp'', x_isDir = False\<rparr>, FI_file a_file], None), tmp_world_asked)"
  by (simp_all add: tmp_world_def tmp_world_asked_def stub_Stat_def stat_children.simps)

lemma testDir_world_facts:
  "d_position (dirs testDir_world 0) = 0"
  "length (d_files (dirs testDir_world 0)) = 5"
  "foreign_in testDir_world (d_files (dirs testDir_world 0)) {}"
  "\<forall>n\<in>set (d_files (dirs testDir_world 0)). \<forall>x. n \<noteq> Ext x"
  "stat_children no_ext testDir_world (d_files (dirs testDir_world 0)) =
     (([FI_file (empty_file ''one'' 0), FI_file (empty_file ''two'' 1),
        FI_file (empty_file ''three'' 2), FI_file (empty_file ''four'' 3),
        FI_file (empty_file ''five'' 4)], None), testDir_world)"
  by (simp_all add: testDir_world_def testDir_files_def foreign_in_def stat_children.simps)

lemma stub_Stat_always_answers: "always_answers stub_Stat {s. \<exists>xi. snd s = Inr xi}"
  by (auto simp: always_answers_def stub_Stat_def)

lemma tmp_world_foreign_in:
  "foreign_in tmp_world (d_files (dirs tmp_world 0)) {s. \<exists>xi. snd s = Inr xi}"
  by (simp add: foreign_in_def tmp_world_def)

theorem Readdir_zero_lists_until_failure_witness:
  "always_answers stub_Stat {s. \<exists>xi. snd s = Inr xi}
   \<and> foreign_in tmp_world (d_files (dirs tmp_world 0)) {s. \<exists>xi. snd s = Inr xi}
   \<and> d_files (dirs tmp_world 0) = [Ext 0, FileV a_file]
   \<and> Readdir stub_Stat tmp_world 0 0 =
        Returns (([FI_ext \<lparr>x_name = ''tmp'', x_isDir = False\<rparr>, FI_file a_file], None),
                 tmp_world_asked)
   \<and> Readdir stub_Stat (at_position tmp_world 0 1) 0 0 =
        Returns (([FI_ext \<lparr>x_name = ''tmp'', x_isDir = False\<rparr>, FI_file a_file], None),
                 at_position tmp_world_asked 0 1)
   \<and> length (d_files (dirs testDir_world 0)) = 5
   \<and> Readdir no_ext testDir_world 0 0 =
        Returns (([FI_file (empty_file ''one'' 0), FI_file (empty_file ''two'' 1),
                   FI_file (empty_file ''three'' 2), FI_file (empty_file ''four'' 3),
                   FI_file (empty_file ''five'' 4)], None), testDir_world)
   \<and> Readdir no_ext (at_position testDir_world 0 3) 0 0 =
        Returns (([FI_file (empty_file ''one'' 0), FI_file (empty_file ''two'' 1),
                   FI_file (empty_file ''three'' 2), FI_file (empty_file ''four'' 3),
                   FI_file (empty_file ''five'' 4)], None), at_position testDir_world 0 3)"
proof -
  have t: "Readdir stub_Stat tmp_world 0 0 =
        Returns (([FI_ext \<lparr>x_name = ''tmp'', x_isDir = False\<rparr>, FI_file a_file], None),
                 tmp_world_asked)"
    by (simp add: Readdir_def Readdir_all_stat_children tmp_world_facts)
  have d: "Readdir no_ext testDir_world 0 0 =
        Returns (([FI_file (empty_file ''one'' 0), FI_file (empty_file ''two'' 1),
                   FI_file (empty_file ''three'' 2), FI_file (empty_file ''four'' 3),
                   FI_file (empty_file ''five'' 4)], None), testDir_world)"
    by (simp add: Readdir_def Readdir_all_stat_children testDir_world_facts)
  have "Readdir stub_Stat (at_position tmp_world 0 1) 0 0 =
        Returns (([FI_ext \<lparr>x_name = ''tmp'', x_isDir = False\<rparr>, FI_file a_file], None),
                 at_position tmp_world_asked 0 1)"
    using Readdir_zero_lists_until_failure [of stub_Stat tmp_world 0 1 "{s. \<exists>xi. snd s = Inr xi}"]
      t stub_Stat_always_answers tmp_world_foreign_in
    by auto
  moreover have "Readdir no_ext (at_position testDir_world 0 3) 0 0 =
        Returns (([FI_file (empty_file ''one'' 0), FI_file (empty_file ''two'' 1),
                   FI_file (empty_file ''three'' 2), FI_file (empty_file ''four'' 3),
                   FI_file (empty_file ''five'' 4)], None), at_position testDir_world 0 3)"
    using Readdir_zero_lists_until_failure [of no_ext testDir_world 0 3 "{}"]
      d testDir_world_facts(4)
    by auto
  ultimately show ?thesis
    using t d stub_Stat_always_answers tmp_world_foreign_in tmp_world_facts(2)
      testDir_world_facts(2)
    by simp
qed

subsection \<open>The earlier revision\<close>

text \<open>
  C6: the loop for \<^verbatim>\<open>count == 0\<close> of the earlier revision (lines 143 to 148)
  returns \<^verbatim>\<open>r[0 : i-1]\<close> when the \<^verbatim>\<open>Stat\<close> of the child \<open>i\<close> fails.
  In directory 0 of \<open>ext_world\<close> the third child fails: the earlier revision
  returns the info of the first child only and drops that of the second, where
  the later revision (line 368, \<^verbatim>\<open>r[0:i]\<close>) returns both. In directory 1 the
  first child fails and the earlier revision panics.
\<close>

theorem Readdir_earlier_drops_entry:
  "Readdir_earlier stub_Stat ext_world 0 0 =
     Returns (([FI_file a_file], Some (ExtError ''stat failed'')),
       ext_world\<lparr>exts := (exts ext_world)
         (0 := (1, Inr \<lparr>x_name = ''tmp'', x_isDir = True\<rparr>),
          1 := (1, Inl (ExtError ''stat failed'')))\<rparr>)
   \<and> Readdir stub_Stat ext_world 0 0 =
     Returns (([FI_file a_file, FI_ext \<lparr>x_name = ''tmp'', x_isDir = True\<rparr>],
               Some (ExtError ''stat failed'')),
       ext_world\<lparr>exts := (exts ext_world)
         (0 := (1, Inr \<lparr>x_name = ''tmp'', x_isDir = True\<rparr>),
          1 := (1, Inl (ExtError ''stat failed'')))\<rparr>)
   \<and> Readdir_earlier stub_Stat ext_world 1 0 = Panic ''slice bounds out of range''"
  by (simp add: Readdir_earlier_def Readdir_def slice_to_def ext_world_def stub_Stat_def)

subsection \<open>Pages of a list\<close>

lemma ceil_div_cases:
  assumes "0 < K"
  shows "ceil_div N K = (if K dvd N then N div K else Suc (N div K))"
proof (cases "K dvd N")
  case True
  then have "N div K * K = N"
    by simp
  then have "N + K - 1 = (K - 1) + N div K * K"
    using assms by linarith
  then have "(N + K - 1) div K = ((K - 1) + N div K * K) div K"
    by simp
  also have "\<dots> = N div K + (K - 1) div K"
    using assms by (simp only: div_mult_self1 [of K "K - 1" "N div K"])
  also have "(K - 1) div K = 0"
    using assms by simp
  finally show ?thesis
    using True by (simp add: ceil_div_def)
next
  case False
  then have r: "0 < N mod K"
    by (simp add: dvd_eq_mod_eq_0)
  have "N = N div K * K + N mod K"
    by simp
  moreover have "Suc (N div K) * K = N div K * K + K"
    by simp
  ultimately have "N + K - 1 = (N mod K - 1) + Suc (N div K) * K"
    using r by linarith
  then have "(N + K - 1) div K = ((N mod K - 1) + Suc (N div K) * K) div K"
    by simp
  also have "\<dots> = Suc (N div K) + (N mod K - 1) div K"
    using assms by (simp only: div_mult_self1 [of K "N mod K - 1" "Suc (N div K)"])
  also have "(N mod K - 1) div K = 0"
    using assms by (simp add: less_imp_diff_less)
  finally show ?thesis
    using False by (simp add: ceil_div_def)
qed

lemma concat_pages: "concat (map (\<lambda>i. take K (drop (i * K) xs)) [0..<m]) = take (m * K) xs"
proof (induction m)
  case 0
  then show ?case by simp
next
  case (Suc m)
  have "take (m * K) xs @ take K (drop (m * K) xs) = take (m * K + K) xs"
    by (simp add: take_add)
  with Suc show ?case by (simp add: add.commute)
qed

lemma ceil_div_covers:
  assumes "0 < K"
  shows "N \<le> ceil_div N K * K"
proof (cases "K dvd N")
  case True
  with assms show ?thesis by (simp add: ceil_div_cases)
next
  case False
  have "N = N div K * K + N mod K" by simp
  moreover have "N mod K < K" using assms by simp
  ultimately have "N \<le> N div K * K + K" by linarith
  with False assms show ?thesis by (simp add: ceil_div_cases)
qed

lemma ceil_div_tight:
  assumes "0 < K" and "j < ceil_div N K"
  shows "j * K < N"
proof (cases "K dvd N")
  case True
  with assms have "Suc j \<le> N div K" by (simp add: ceil_div_cases)
  then have "Suc j * K \<le> N div K * K" by (rule mult_le_mono1)
  also have "\<dots> = N" using True by simp
  finally show ?thesis using assms(1) by simp
next
  case False
  then have r: "0 < N mod K" by (simp add: dvd_eq_mod_eq_0)
  from False assms have "j \<le> N div K" by (simp add: ceil_div_cases)
  then have "j * K \<le> N div K * K" by (rule mult_le_mono1)
  also have "\<dots> < N div K * K + N mod K" using r by linarith
  also have "\<dots> = N" by simp
  finally show ?thesis .
qed

lemma last_page_length:
  assumes "0 < K" and "Suc j = ceil_div N K"
  shows "min K (N - j * K) = (if K dvd N then K else N mod K)"
proof (cases "K dvd N")
  case True
  with assms have "Suc j * K = N" by (simp add: ceil_div_cases)
  then have "N - j * K = K" by simp
  with True show ?thesis by simp
next
  case False
  with assms have "j = N div K" by (simp add: ceil_div_cases)
  then have "N - j * K = N mod K" by (simp add: minus_div_mult_eq_mod)
  moreover have "N mod K < K" using assms by simp
  ultimately show ?thesis using False by simp
qed

lemma last_page_signal:
  assumes "0 < K" and "Suc j = ceil_div N K"
  shows "(Suc j * K \<le> N) = (K dvd N)"
proof (cases "K dvd N")
  case True
  with assms have "Suc j * K = N" by (simp add: ceil_div_cases)
  with True show ?thesis by simp
next
  case False
  with assms have j: "j = N div K" by (simp add: ceil_div_cases)
  have "N = N div K * K + N mod K" by simp
  moreover have "N mod K < K" using assms by simp
  ultimately have "N < N div K * K + K" by linarith
  with j False show ?thesis by simp
qed


subsection \<open>The pages of \<^verbatim>\<open>Readdir\<close>\<close>

lemma stat_children_prefix:
  assumes "stat_children X w ns = ((fis, None), w')"
  shows "\<exists>w1. stat_children X w (take m ns) = ((take m fis, None), w1)"
proof (cases "m \<le> length fis")
  case True
  from stat_children_take [OF assms True] show ?thesis
    by (cases "stat_children X w (take m ns)") simp
next
  case False
  moreover from stat_children_length [OF assms] have "length fis = length ns"
    by simp
  ultimately show ?thesis
    using assms by simp
qed

lemma stat_children_page:
  assumes "stat_children X w ns = ((fis, None), w')"
  shows "stat_children X (snd (stat_children X w (take m ns))) (take K (drop m ns)) =
           ((take K (drop m fis), None), snd (stat_children X w (take (m + K) ns)))"
proof -
  from stat_children_prefix [OF assms, of m] obtain w1 where
    p1: "stat_children X w (take m ns) = ((take m fis, None), w1)"
    by blast
  from stat_children_prefix [OF assms, of "m + K"] obtain w3 where
    p3: "stat_children X w (take (m + K) ns) = ((take (m + K) fis, None), w3)"
    by blast
  obtain b err w2 where pg: "stat_children X w1 (take K (drop m ns)) = ((b, err), w2)"
    by (cases "stat_children X w1 (take K (drop m ns))") auto
  have "stat_children X w (take m ns @ take K (drop m ns)) = ((take m fis @ b, err), w2)"
    using p1 pg by (simp add: stat_children_append)
  moreover have "take m ns @ take K (drop m ns) = take (m + K) ns"
    by (simp add: take_add)
  ultimately have "((take m fis @ b, err), w2) = ((take (m + K) fis, None), w3)"
    using p3 by simp
  then have "take m fis @ b = take m fis @ take K (drop m fis)" "err = None" "w2 = w3"
    by (simp_all add: take_add)
  with pg p1 p3 show ?thesis
    by simp
qed

lemma Readdir_page:
  fixes w :: "'x world"
  assumes sc: "stat_children X w (d_files (dirs w d)) = ((fis, None), w')"
    and start: "d_position (dirs w d) = 0"
    and K: "0 < K" "16 * int K \<le> maxAlloc"
  defines "N \<equiv> length (d_files (dirs w d))"
  defines "W \<equiv> \<lambda>m. snd (stat_children X w (take m (d_files (dirs w d))))"
  shows "Readdir X (at_position (W (j * K)) d (int (min N (j * K)))) d (int K) =
           Returns ((take K (drop (j * K) fis), if Suc j * K \<le> N then None else Some EOF),
                    at_position (W (Suc j * K)) d (int (min N (Suc j * K))))"
proof -
  let ?fs = "d_files (dirs w d)"
  let ?p = "min N (j * K)"
  let ?w = "at_position (W (j * K)) d (int ?p)"
  have dW: "dirs (W m) = dirs w" for m
    using stat_children_dirs [of X w "take m ?fs"] by (simp add: W_def)
  have fs: "d_files (dirs ?w d) = ?fs"
    by (simp add: dW)
  have len: "length fis = N"
    using stat_children_length [OF sc] by (simp add: N_def)
  have dr: "drop ?p ?fs = drop (j * K) ?fs" "drop ?p fis = drop (j * K) fis"
    by (simp_all add: min_def N_def len [unfolded N_def])
  have pg: "stat_children X (W (j * K)) (take K (drop (j * K) ?fs)) =
      ((take K (drop (j * K) fis), None), W (Suc j * K))"
    using stat_children_page [OF sc, of "j * K" K] by (simp add: W_def add.commute)
  have A: "Readdir_loop X ?w d [] K =
     (case stat_children X ?w (take K (drop ?p (d_files (dirs ?w d)))) of
        ((fis, Some e), w') \<Rightarrow> Returns (([] @ fis, Some e), at_position w' d (int (?p + length fis)))
      | ((fis, None), w') \<Rightarrow>
          Returns (([] @ fis, if ?p + K \<le> length (d_files (dirs ?w d)) then None else Some EOF),
                   at_position w' d (int (?p + length fis))))"
    by (rule Readdir_loop_stat_children) (simp_all add: dW N_def)
  have B: "stat_children X ?w (take K (drop ?p (d_files (dirs ?w d)))) =
      ((take K (drop (j * K) fis), None), at_position (W (Suc j * K)) d (int ?p))"
    unfolding fs dr by (simp add: stat_children_at_position pg)
  have c1: "(?p + K \<le> N) = (Suc j * K \<le> N)"
    using K(1) by (auto simp: min_def)
  have c2: "?p + length (take K (drop (j * K) fis)) = min N (Suc j * K)"
    by (auto simp: len min_def)
  have loop: "Readdir_loop X ?w d [] K =
      Returns ((take K (drop (j * K) fis), if Suc j * K \<le> N then None else Some EOF),
               at_position (W (Suc j * K)) d (int (min N (Suc j * K))))"
    unfolding A B
    by (simp only: prod.case option.case append_Nil fs at_position_twice N_def [symmetric] c1 c2)
  show ?thesis
    using K loop by (simp add: Readdir_def)
qed

lemma Readdir_times_pages:
  fixes w :: "'x world"
  assumes sc: "stat_children X w (d_files (dirs w d)) = ((fis, None), w')"
    and start: "d_position (dirs w d) = 0"
    and K: "0 < K" "16 * int K \<le> maxAlloc"
  defines "N \<equiv> length (d_files (dirs w d))"
  defines "W \<equiv> \<lambda>m. snd (stat_children X w (take m (d_files (dirs w d))))"
  shows "Readdir_times X (at_position (W (j * K)) d (int (min N (j * K)))) d (int K) i =
           Returns (at_position (W ((j + i) * K)) d (int (min N ((j + i) * K))))"
proof (induction i arbitrary: j)
  case 0
  then show ?case by simp
next
  case (Suc i)
  have "Readdir X (at_position (W (j * K)) d (int (min N (j * K)))) d (int K) =
           Returns ((take K (drop (j * K) fis), if Suc j * K \<le> N then None else Some EOF),
                    at_position (W (Suc j * K)) d (int (min N (Suc j * K))))"
    unfolding N_def W_def by (rule Readdir_page [OF sc start K])
  with Suc.IH [of "Suc j"] show ?case
    by simp
qed

text \<open>
  C3, as the claim states it, fails when the page size divides the number of
  children: \<^verbatim>\<open>testDir\<close> has five children, and the call with page size five
  returns this one and final page with all five entries and no error, that is
  without \<^verbatim>\<open>io.EOF\<close>.
\<close>

theorem Readdir_final_page_counterexample:
  "Readdir no_ext testDir_world 0 5 =
     Returns (([FI_file (empty_file ''one'' 0), FI_file (empty_file ''two'' 1),
                FI_file (empty_file ''three'' 2), FI_file (empty_file ''four'' 3),
                FI_file (empty_file ''five'' 4)], None),
              at_position testDir_world 0 5)
   \<and> length (d_files (dirs testDir_world 0)) = 5
   \<and> ceil_div 5 5 = 1"
proof -
  have "ceil_div 5 5 = 1"
    by (simp add: ceil_div_def)
  moreover have "length (d_files (dirs testDir_world 0)) = 5"
    by (simp add: testDir_world_def testDir_files_def)
  moreover have "Readdir no_ext testDir_world 0 5 =
     Returns (([FI_file (empty_file ''one'' 0), FI_file (empty_file ''two'' 1),
                FI_file (empty_file ''three'' 2), FI_file (empty_file ''four'' 3),
                FI_file (empty_file ''five'' 4)], None),
              at_position testDir_world 0 5)"
    by (simp add: Readdir_def maxAlloc_def testDir_world_def testDir_files_def at_position_def
        eval_nat_numeral)
  ultimately show ?thesis
    by simp
qed

text \<open>
  C3, amended. Let the directory \<open>d\<close> hold \<open>N\<close> children, let the foreign objects
  among them always answer \<^verbatim>\<open>Stat\<close> (there may be none: the children may all be
  of this package), let the position of \<open>d\<close> be 0 and let \<open>K\<close> be positive. When
  \<open>16 * K\<close> is more than \<^verbatim>\<open>maxAlloc\<close>, \<^verbatim>\<open>Readdir(K)\<close> panics in \<^verbatim>\<open>make\<close>. Else
  \<open>j\<close> calls of \<^verbatim>\<open>Readdir(K)\<close> leave the position at \<open>min N (j * K)\<close>, and the
  next call returns the entries \<open>j * K\<close> to \<open>j * K + K\<close> of \<open>all\<close> with \<^verbatim>\<open>io.EOF\<close>
  exactly when fewer than \<open>K\<close> children were left, where \<open>all\<close> is what
  \<^verbatim>\<open>Readdir(0)\<close> returns: what each child answered to \<^verbatim>\<open>Stat\<close> when the children
  were asked one after the other, in their order. These pages, \<open>ceil_div N K\<close>
  of them, make up \<open>all\<close>; each but the last has \<open>K\<close> entries and no error; the
  last has \<open>K\<close> entries and no error when \<open>K\<close> divides \<open>N\<close>, and \<open>N mod K\<close>
  entries and \<^verbatim>\<open>io.EOF\<close> otherwise; every later call returns no entry and
  \<^verbatim>\<open>io.EOF\<close>. \<^verbatim>\<open>Close\<close> sets the position to 0 and nothing else; with children
  of this package only, that is the store of the start.
\<close>

theorem Readdir_pagination:
  fixes w :: "'x world" and d :: addr and X :: "'x xStat"
  assumes "always_answers X S" and "foreign_in w (d_files (dirs w d)) S"
    and "d_position (dirs w d) = 0"
    and "0 < K"
  defines "fs \<equiv> d_files (dirs w d)"
  defines "N \<equiv> length (d_files (dirs w d))"
  defines "all \<equiv> fst (fst (stat_children X w (d_files (dirs w d))))"
  defines "W \<equiv> \<lambda>m. snd (stat_children X w (take m (d_files (dirs w d))))"
  shows
    "(16 * int K \<le> maxAlloc \<longrightarrow>
        Readdir_times X w d (int K) j = Returns (at_position (W (j * K)) d (int (min N (j * K))))
        \<and> Readdir X (at_position (W (j * K)) d (int (min N (j * K)))) d (int K) =
            Returns ((take K (drop (j * K) all), if Suc j * K \<le> N then None else Some EOF),
                     at_position (W (Suc j * K)) d (int (min N (Suc j * K)))))
     \<and> (16 * int K > maxAlloc \<longrightarrow> Readdir X w d (int K) = Panic ''makeslice: len out of range'')
     \<and> Readdir X w d 0 = Returns ((all, None), W N)
     \<and> length all = N
     \<and> (\<forall>i<N. fst (Stat X (W i) (fs ! i)) = Inr (all ! i))
     \<and> concat (map (\<lambda>i. take K (drop (i * K) all)) [0..<ceil_div N K]) = all
     \<and> (Suc j < ceil_div N K \<longrightarrow> length (take K (drop (j * K) all)) = K \<and> Suc j * K \<le> N)
     \<and> (Suc j = ceil_div N K \<longrightarrow>
          length (take K (drop (j * K) all)) = (if K dvd N then K else N mod K)
          \<and> (Suc j * K \<le> N) = (K dvd N))
     \<and> (ceil_div N K \<le> j \<longrightarrow> take K (drop (j * K) all) = [] \<and> \<not> Suc j * K \<le> N)
     \<and> dir_Close (at_position (W m) d q) d = W m
     \<and> ((\<forall>n\<in>set fs. \<forall>x. n \<noteq> Ext x) \<longrightarrow> W m = w)"
proof -
  obtain w' where sc: "stat_children X w (d_files (dirs w d)) = ((all, None), w')"
    using stat_children_answers [OF assms(1,2) subset_refl]
    by (cases "stat_children X w (d_files (dirs w d))") (auto simp: all_def)
  have len: "length all = N"
    using stat_children_length [OF sc] by (simp add: N_def)
  have W0: "W 0 = w"
    by (simp add: W_def)
  have WN: "W N = w'"
    using sc by (simp add: W_def N_def)
  have dW: "dirs (W m) = dirs w" for m
    using stat_children_dirs [of X w "take m (d_files (dirs w d))"] by (simp add: W_def)
  have w0: "at_position (W (0 * K)) d (int (min N (0 * K))) = w"
    using assms(3) by (simp add: W0 at_position_same)
  have paging: "16 * int K \<le> maxAlloc \<longrightarrow>
        Readdir_times X w d (int K) j = Returns (at_position (W (j * K)) d (int (min N (j * K))))
        \<and> Readdir X (at_position (W (j * K)) d (int (min N (j * K)))) d (int K) =
            Returns ((take K (drop (j * K) all), if Suc j * K \<le> N then None else Some EOF),
                     at_position (W (Suc j * K)) d (int (min N (Suc j * K))))"
  proof
    assume small: "16 * int K \<le> maxAlloc"
    have "Readdir_times X (at_position (W (0 * K)) d (int (min N (0 * K)))) d (int K) j =
           Returns (at_position (W ((0 + j) * K)) d (int (min N ((0 + j) * K))))"
      unfolding N_def W_def by (rule Readdir_times_pages [OF sc assms(3,4) small])
    then have "Readdir_times X w d (int K) j =
        Returns (at_position (W (j * K)) d (int (min N (j * K))))"
      unfolding w0 by simp
    moreover have "Readdir X (at_position (W (j * K)) d (int (min N (j * K)))) d (int K) =
            Returns ((take K (drop (j * K) all), if Suc j * K \<le> N then None else Some EOF),
                     at_position (W (Suc j * K)) d (int (min N (Suc j * K))))"
      unfolding N_def W_def by (rule Readdir_page [OF sc assms(3,4) small])
    ultimately show "Readdir_times X w d (int K) j =
          Returns (at_position (W (j * K)) d (int (min N (j * K))))
        \<and> Readdir X (at_position (W (j * K)) d (int (min N (j * K)))) d (int K) =
            Returns ((take K (drop (j * K) all), if Suc j * K \<le> N then None else Some EOF),
                     at_position (W (Suc j * K)) d (int (min N (Suc j * K))))"
      by (rule conjI)
  qed
  have large: "16 * int K > maxAlloc \<longrightarrow> Readdir X w d (int K) = Panic ''makeslice: len out of range''"
    using assms(4) by (simp add: Readdir_def)
  have zero: "Readdir X w d 0 = Returns ((all, None), W N)"
    using sc by (simp add: Readdir_def Readdir_all_stat_children WN)
  have pin: "\<forall>i<N. fst (Stat X (W i) (fs ! i)) = Inr (all ! i)"
    using stat_children_nth [OF sc] len by (simp add: W_def fs_def)
  have partition: "concat (map (\<lambda>i. take K (drop (i * K) all)) [0..<ceil_div N K]) = all"
    using ceil_div_covers [OF assms(4), of N] by (simp add: concat_pages len)
  have full: "Suc j < ceil_div N K \<longrightarrow> length (take K (drop (j * K) all)) = K \<and> Suc j * K \<le> N"
  proof
    assume "Suc j < ceil_div N K"
    then have "Suc j * K < N"
      using assms(4) by (intro ceil_div_tight)
    then show "length (take K (drop (j * K) all)) = K \<and> Suc j * K \<le> N"
      by (simp add: len)
  qed
  have final: "Suc j = ceil_div N K \<longrightarrow>
          length (take K (drop (j * K) all)) = (if K dvd N then K else N mod K)
          \<and> (Suc j * K \<le> N) = (K dvd N)"
    using last_page_length [OF assms(4), of j N] last_page_signal [OF assms(4), of j N]
    by (simp add: len min.commute)
  have after: "ceil_div N K \<le> j \<longrightarrow> take K (drop (j * K) all) = [] \<and> \<not> Suc j * K \<le> N"
  proof
    assume "ceil_div N K \<le> j"
    then have "ceil_div N K * K \<le> j * K"
      by (rule mult_le_mono1)
    with ceil_div_covers [OF assms(4), of N] have "N \<le> j * K"
      by linarith
    with assms(4) show "take K (drop (j * K) all) = [] \<and> \<not> Suc j * K \<le> N"
      by (simp add: len)
  qed
  have "dir_Close (at_position (W m) d q) d = at_position (W m) d 0"
    by (simp add: dir_Close_def at_position_def)
  moreover have "d_position (dirs (W m) d) = 0"
    using assms(3) by (simp add: dW)
  ultimately have close: "dir_Close (at_position (W m) d q) d = W m"
    by (simp add: at_position_same)
  have pkg: "(\<forall>n\<in>set fs. \<forall>x. n \<noteq> Ext x) \<longrightarrow> W m = w"
  proof
    assume "\<forall>n\<in>set fs. \<forall>x. n \<noteq> Ext x"
    then have "\<forall>n\<in>set (take m (d_files (dirs w d))). \<forall>x. n \<noteq> Ext x"
      by (auto simp: fs_def dest: in_set_takeD)
    from stat_children_pkg [OF this, of X w] show "W m = w"
      by (simp add: W_def)
  qed
  show ?thesis
    by (rule conjI [OF paging conjI [OF large conjI [OF zero conjI [OF len conjI [OF pin
          conjI [OF partition conjI [OF full conjI [OF final conjI [OF after
          conjI [OF close pkg]]]]]]]]]])
qed

theorem Readdir_pagination_witness:
  "always_answers stub_Stat {s. \<exists>xi. snd s = Inr xi}
   \<and> foreign_in tmp_world (d_files (dirs tmp_world 0)) {s. \<exists>xi. snd s = Inr xi}
   \<and> d_position (dirs tmp_world 0) = 0 \<and> (0::nat) < 1 \<and> 16 * int 1 \<le> maxAlloc
   \<and> length (d_files (dirs tmp_world 0)) = 2 \<and> ceil_div 2 1 = 2
   \<and> Readdir_times stub_Stat tmp_world 0 1 1 = Returns (at_position tmp_world_asked 0 1)
   \<and> Readdir stub_Stat (at_position tmp_world_asked 0 1) 0 1 =
        Returns (([FI_file a_file], None), at_position tmp_world_asked 0 2)
   \<and> always_answers no_ext {}
   \<and> length (d_files (dirs testDir_world 0)) = 5 \<and> ceil_div 5 2 = 3
   \<and> Readdir_times no_ext testDir_world 0 2 2 = Returns (at_position testDir_world 0 4)
   \<and> Readdir no_ext (at_position testDir_world 0 4) 0 2 =
        Returns (([FI_file (empty_file ''five'' 4)], Some EOF), at_position testDir_world 0 5)
   \<and> dir_Close (at_position testDir_world 0 5) 0 = testDir_world
   \<and> (0::nat) < 2 ^ 45 \<and> 16 * int (2 ^ 45) > maxAlloc
   \<and> Readdir no_ext testDir_world 0 (int (2 ^ 45)) = Panic ''makeslice: len out of range''"
proof -
  have K1: "(0::nat) < 1" and K2: "(0::nat) < 2"
    by simp_all
  have small: "16 * int 1 \<le> maxAlloc" "16 * int 2 \<le> maxAlloc"
    by (simp_all add: maxAlloc_def)
  have c: "ceil_div 2 1 = 2" "ceil_div 5 2 = 3"
    by (simp_all add: ceil_div_def)
  have a0: "always_answers no_ext {}"
    by (simp add: always_answers_def)
  note P = Readdir_pagination [OF stub_Stat_always_answers tmp_world_foreign_in
      tmp_world_facts(1) K1, where j = 1 and m = 1 and q = 1]
  have T: "Readdir_times stub_Stat tmp_world 0 1 1 = Returns (at_position tmp_world_asked 0 1)
    \<and> Readdir stub_Stat (at_position tmp_world_asked 0 1) 0 1 =
        Returns (([FI_file a_file], None), at_position tmp_world_asked 0 2)"
    using P small(1) by (simp add: tmp_world_facts eval_nat_numeral)
  note Q = Readdir_pagination [OF a0 testDir_world_facts(3,1) K2,
      where j = 2 and m = 4 and q = 5]
  have W: "snd (stat_children no_ext testDir_world (take m (d_files (dirs testDir_world 0))))
      = testDir_world" for m
    using Q testDir_world_facts(4)
      Readdir_pagination [OF a0 testDir_world_facts(3,1) K2, where m = m]
    by blast
  have D: "Readdir_times no_ext testDir_world 0 2 2 = Returns (at_position testDir_world 0 4)
    \<and> Readdir no_ext (at_position testDir_world 0 4) 0 2 =
        Returns (([FI_file (empty_file ''five'' 4)], Some EOF), at_position testDir_world 0 5)
    \<and> dir_Close (at_position testDir_world 0 5) 0 = testDir_world"
    using Q small(2) by (simp add: W testDir_world_facts)
  have big: "(0::nat) < 2 ^ 45" "16 * int (2 ^ 45) > maxAlloc"
    by (simp_all add: maxAlloc_def)
  have B: "Readdir no_ext testDir_world 0 (int (2 ^ 45)) = Panic ''makeslice: len out of range''"
    using Readdir_pagination [OF a0 testDir_world_facts(3,1) big(1)] big(2) by blast
  show ?thesis
    using T D B big K1 small(1) c a0 stub_Stat_always_answers tmp_world_foreign_in
      tmp_world_facts(1,2) testDir_world_facts(2)
    by simp
qed

section \<open>Opening a file that is placed in the tree, and reading it\<close>

subsection \<open>\<^verbatim>\<open>Open\<close> follows the placement\<close>

lemma cut_slash_None: "CHR ''/'' \<notin> set s \<Longrightarrow> cut_slash s = None"
  by (induction s) auto

lemma cut_slash_segment: "CHR ''/'' \<notin> set s \<Longrightarrow> cut_slash (s @ ''/'' @ r) = Some (s, r)"
  by (induction s) auto

lemma Name_dirs: "dirs w' = dirs w \<Longrightarrow> Name w' fi = Name w fi"
  by (cases fi) simp_all

text \<open>
  \<^verbatim>\<open>find\<close> passes the children that answer \<^verbatim>\<open>Stat\<close> with another name, in the
  store they leave behind.
\<close>

lemma find_loop_skip:
  assumes "stat_children X w pre = ((fis, None), w2)"
    and "seg \<notin> set (map (Name w0) fis)"
    and "dirs w = dirs w0"
  shows "find_loop X w (pre @ rest) seg = find_loop X w2 rest seg"
  using assms
proof (induction pre arbitrary: w fis)
  case Nil
  then show ?case by simp
next
  case (Cons n pre)
  obtain res w1 where st: "Stat X w n = (res, w1)"
    by (cases "Stat X w n")
  from Stat_dirs [of X w n] st Cons.prems(3) have d1: "dirs w1 = dirs w0"
    by simp
  show ?case
  proof (cases res)
    case (Inl e)
    with st Cons.prems(1) show ?thesis
      by (simp add: stat_children_Inl)
  next
    case (Inr fi)
    obtain fis' err w3 where tl: "stat_children X w1 pre = ((fis', err), w3)"
      by (cases "stat_children X w1 pre") auto
    from st Inr tl Cons.prems(1) have eq: "fis = fi # fis'" "err = None" "w3 = w2"
      by (simp_all add: stat_children_Inr)
    from eq Cons.prems(2) have no: "Name w0 fi \<noteq> seg" "seg \<notin> set (map (Name w0) fis')"
      by auto
    from no(1) Name_dirs [OF d1, of fi] have "Name w1 fi \<noteq> seg"
      by simp
    moreover have "find_loop X w1 (pre @ rest) seg = find_loop X w2 rest seg"
      using Cons.IH [of w1 fis'] tl eq no(2) d1 by simp
    ultimately show ?thesis
      using st Inr by simp
  qed
qed

lemma find_dir_others_before:
  assumes "seg_ok seg" and "i < length (d_files (dirs w d))"
    and "others_before X w (take i (d_files (dirs w d))) seg"
  shows "find_dir X w d seg =
     find_loop X (snd (stat_children X w (take i (d_files (dirs w d)))))
       (d_files (dirs w d) ! i # drop (Suc i) (d_files (dirs w d))) seg"
proof -
  let ?fs = "d_files (dirs w d)"
  obtain fis err w2 where sc: "stat_children X w (take i ?fs) = ((fis, err), w2)"
    by (cases "stat_children X w (take i ?fs)") auto
  from assms(3) sc have ok: "err = None" "seg \<notin> set (map (Name w) fis)"
    by (auto simp: others_before_def split: option.splits)
  have split: "?fs = take i ?fs @ ?fs ! i # drop (Suc i) ?fs"
    using assms(2) by (simp add: id_take_nth_drop)
  have "find_loop X w (take i ?fs @ ?fs ! i # drop (Suc i) ?fs) seg
      = find_loop X w2 (?fs ! i # drop (Suc i) ?fs) seg"
    using sc ok by (intro find_loop_skip [where ?w0.0 = w and fis = fis]) simp_all
  then have "find_loop X w ?fs seg = find_loop X w2 (?fs ! i # drop (Suc i) ?fs) seg"
    using split by simp
  with assms(1) sc show ?thesis
    by (simp add: find_dir_def seg_ok_def)
qed

lemma Open_placed:
  "placed X w d path f \<Longrightarrow>
   \<exists>w'. Open X w d (join_path (map fst path)) = (Inr (FileV f), w')"
proof (induction X w d path f rule: placed.induct)
  case (1 X w d f)
  then show ?case by simp
next
  case (2 X w d seg i f)
  then have p: "seg_ok seg" "i < length (d_files (dirs w d))"
      "d_files (dirs w d) ! i = FileV f" "f_name f = seg"
      "others_before X w (take i (d_files (dirs w d))) seg"
    by simp_all
  have "find_dir X w d seg =
     (Inr (FileV f), snd (stat_children X w (take i (d_files (dirs w d)))))"
    using p by (simp add: find_dir_others_before)
  moreover have "cut_slash seg = None"
    using p(1) by (simp add: seg_ok_def cut_slash_None)
  ultimately show ?case
    by (simp add: Open_no_slash)
next
  case (3 X w d seg i step path f)
  let ?fs = "d_files (dirs w d)"
  let ?w2 = "snd (stat_children X w (take i ?fs))"
  from "3.prems" obtain sub where p: "seg_ok seg" "i < length ?fs"
      "others_before X w (take i ?fs) seg" "?fs ! i = DirP sub" "d_name (dirs w sub) = seg"
      "placed X ?w2 sub (step # path) f"
    by (auto split: node.splits)
  from stat_children_dirs [of X w "take i ?fs"] have "dirs ?w2 = dirs w"
    by simp
  then have fd: "find_dir X w d seg = (Inr (DirP sub), ?w2)"
    using p by (simp add: find_dir_others_before)
  from p(1) have "CHR ''/'' \<notin> set seg"
    by (simp add: seg_ok_def)
  then have cs: "cut_slash (seg @ ''/'' @ join_path (map fst (step # path)))
      = Some (seg, join_path (map fst (step # path)))"
    by (rule cut_slash_segment)
  from "3.IH" [OF p(4) p(6)] obtain w' where
    "Open X ?w2 sub (join_path (map fst (step # path))) = (Inr (FileV f), w')"
    by blast
  then have "Open X w d (seg @ ''/'' @ join_path (map fst (step # path))) = (Inr (FileV f), w')"
    using fd by (simp only: Open_slash [OF cs] prod.case sum.case node.case)
  then show ?case
    by (cases step) auto
qed

subsection \<open>Reading what \<^verbatim>\<open>Open\<close> returns\<close>

lemma dotFS_builds_dot_world: "dotFS = Returns (0, dot_world)"
  by (simp add: dotFS_def dot_world_def new_world_def File_def NewReader_def new_dir_def
      FileSystem_def first_file_def second_file_def dot_file_def eval_nat_numeral)

text \<open>
  C4, as the claim states it, fails: in the file system that \<open>dotFS\<close> builds the
  leaf with the content \<^verbatim>\<open>X\<close> is a child of the root with the name \<^verbatim>\<open>"."\<close>, and
  opening \<^verbatim>\<open>"."\<close> from the root gives the root directory, which refuses to be
  read; the leaf with the content \<^verbatim>\<open>second\<close> is a child of the root with the name
  \<^verbatim>\<open>a\<close>, and opening \<^verbatim>\<open>a\<close> gives the leaf before it that has the same name, whose
  content is \<^verbatim>\<open>first\<close>. All three readers are as \<^verbatim>\<open>File\<close> made them.
\<close>

theorem Open_leaf_counterexample:
  "dotFS = Returns (0, dot_world)
   \<and> d_files (dirs dot_world 0) = [FileV first_file, FileV second_file, FileV dot_file]
   \<and> f_name dot_file = ''.''
   \<and> readers dot_world (f_Reader dot_file) = \<lparr>r_s = ''X'', r_i = 0\<rparr>
   \<and> Open no_ext dot_world 0 ''.'' = (Inr (DirP 0), dot_world)
   \<and> dir_Read dot_world 0 MinRead = (([], Some NotRegularFile), dot_world)
   \<and> f_name second_file = ''a''
   \<and> readers dot_world (f_Reader second_file) = \<lparr>r_s = ''second'', r_i = 0\<rparr>
   \<and> Open no_ext dot_world 0 ''a'' = (Inr (FileV first_file), dot_world)
   \<and> fst (ReadFrom dot_world first_file '''') = (''first'', None)"
proof -
  have "fst (ReadFrom dot_world first_file '''') = (''first'', None)"
    by (simp add: ReadFrom_rest dot_world_def first_file_def)
  moreover have "Open no_ext dot_world 0 ''a'' = (Inr (FileV first_file), dot_world)"
    by (simp add: Open_no_slash find_dir_def dot_world_def first_file_def)
  moreover have "Open no_ext dot_world 0 ''.'' = (Inr (DirP 0), dot_world)"
    by (simp add: Open_no_slash)
  moreover have "d_files (dirs dot_world 0) = [FileV first_file, FileV second_file, FileV dot_file]"
    "readers dot_world (f_Reader dot_file) = \<lparr>r_s = ''X'', r_i = 0\<rparr>"
    "readers dot_world (f_Reader second_file) = \<lparr>r_s = ''second'', r_i = 0\<rparr>"
    "f_name dot_file = ''.''" "f_name second_file = ''a''"
    by (simp_all add: dot_world_def dot_file_def second_file_def)
  ultimately show ?thesis
    by (simp add: dotFS_builds_dot_world dir_Read_def)
qed

text \<open>
  C4, amended: let \<^verbatim>\<open>File\<close>, called with the contents \<open>C\<close>, have made the leaf
  \<open>f\<close>, and let \<open>f\<close> be placed under the directory \<open>root\<close> at a path of segments
  that are not empty, not \<^verbatim>\<open>"."\<close> and without a separator, such that every
  segment is the name of a child of the directory reached so far, the children
  before that child answer \<^verbatim>\<open>Stat\<close> with other names, every segment but the last
  names a directory of this package, and the last names \<open>f\<close>. Let the reader of
  \<open>f\<close> be as \<^verbatim>\<open>File\<close> made it, or let the store be what \<^verbatim>\<open>Close\<close> of \<open>f\<close> returned
  when the reader still held what \<^verbatim>\<open>File\<close> put in it. Then opening the path, the
  segments joined by separators, from \<open>root\<close> returns \<open>f\<close> without an error, and
  reading \<open>f\<close> to its end after that delivers exactly \<open>C\<close> and no error.
\<close>

theorem File_placed_read_all:
  assumes "File w0 name C options = Returns (FileV f, w1)"
    and "placed X w root path f"
    and "readers w (f_Reader f) = readers w1 (f_Reader f)
       \<or> (\<exists>wa. file_Close wa f = Returns w
              \<and> r_s (readers wa (f_Reader f)) = r_s (readers w1 (f_Reader f)))"
  shows "\<exists>w'. Open X w root (join_path (map fst path)) = (Inr (FileV f), w')
           \<and> fst (ReadFrom w' f '''') = (C, None)"
proof -
  from assms(1) have made: "readers w1 (f_Reader f) = \<lparr>r_s = C, r_i = 0\<rparr>"
    by (rule File_makes_reader)
  have start: "r_s (readers w (f_Reader f)) = C \<and> r_i (readers w (f_Reader f)) = 0"
    using assms(3)
  proof
    assume "readers w (f_Reader f) = readers w1 (f_Reader f)"
    with made show ?thesis
      by simp
  next
    assume "\<exists>wa. file_Close wa f = Returns w
              \<and> r_s (readers wa (f_Reader f)) = r_s (readers w1 (f_Reader f))"
    then obtain wa where c: "file_Close wa f = Returns w"
        and s: "r_s (readers wa (f_Reader f)) = r_s (readers w1 (f_Reader f))"
      by blast
    from file_Close_rewinds [of wa f] c s made show ?thesis
      by simp
  qed
  from Open_placed [OF assms(2)] obtain w' where
    op: "Open X w root (join_path (map fst path)) = (Inr (FileV f), w')"
    by blast
  from op Open_readers [of X w root "join_path (map fst path)"] have "readers w' = readers w"
    by simp
  with start have "fst (ReadFrom w' f '''') = (C, None)"
    by (simp add: ReadFrom_rest)
  with op show ?thesis
    by blast
qed

lemma baz_file_made: "File bar_made ''baz'' ''BAZ'' [] = Returns (FileV baz_file, baz_made)"
  by (simp add: File_def NewReader_def bar_made_def baz_made_def new_world_def baz_file_def)

lemma baz_file_placed:
  "placed no_ext test_world 4
     [(''foo'', 0), (''baz'', 1), (''baz'', 0), (''baz'', 0), (''baz'', 0)] baz_file"
  by (simp add: test_world_def baz_file_def bar_file_def seg_ok_def others_before_def
      stat_children.simps)

lemma baz_read_Close: "file_Close baz_read baz_file = Returns test_world"
  by (simp add: file_Close_def file_Seek_def Reader_Seek_def baz_read_def test_world_def
      baz_file_def fun_eq_iff)

theorem File_placed_read_all_witness:
  "File bar_made ''baz'' ''BAZ'' [] = Returns (FileV baz_file, baz_made)
   \<and> placed no_ext test_world 4
        [(''foo'', 0), (''baz'', 1), (''baz'', 0), (''baz'', 0), (''baz'', 0)] baz_file
   \<and> readers test_world (f_Reader baz_file) = readers baz_made (f_Reader baz_file)
   \<and> file_Close baz_read baz_file = Returns test_world
   \<and> r_i (readers baz_read (f_Reader baz_file)) = 3
   \<and> r_s (readers baz_read (f_Reader baz_file)) = r_s (readers baz_made (f_Reader baz_file))
   \<and> Open no_ext test_world 4 ''foo/baz/baz/baz/baz'' = (Inr (FileV baz_file), test_world)
   \<and> fst (ReadFrom test_world baz_file '''') = (''BAZ'', None)"
proof -
  have same: "readers test_world (f_Reader baz_file) = readers baz_made (f_Reader baz_file)"
    by (simp add: test_world_def baz_made_def baz_file_def new_world_def)
  have rd: "r_i (readers baz_read (f_Reader baz_file)) = 3"
    "r_s (readers baz_read (f_Reader baz_file)) = r_s (readers baz_made (f_Reader baz_file))"
    by (simp_all add: baz_read_def baz_made_def baz_file_def new_world_def)
  have closed: "\<exists>wa. file_Close wa baz_file = Returns test_world
      \<and> r_s (readers wa (f_Reader baz_file)) = r_s (readers baz_made (f_Reader baz_file))"
    using baz_read_Close rd(2) by blast
  have op: "Open no_ext test_world 4 ''foo/baz/baz/baz/baz'' = (Inr (FileV baz_file), test_world)"
    by (simp add: Open_slash Open_no_slash find_dir_def test_world_def bar_file_def baz_file_def)
  from File_placed_read_all [OF baz_file_made baz_file_placed disjI1 [OF same]]
  have "fst (ReadFrom test_world baz_file '''') = (''BAZ'', None)"
    using op by simp
  moreover from File_placed_read_all [OF baz_file_made baz_file_placed disjI2 [OF closed]]
  have "fst (ReadFrom test_world baz_file '''') = (''BAZ'', None)"
    using op by simp
  ultimately show ?thesis
    using baz_file_made baz_file_placed same baz_read_Close rd op by simp
qed

end
